theory Spec2Isabelle
  imports Complex_Main "HOL-Library.Word"
begin

unbundle bit_operations_syntax

section \<open>Upload payload and the data-requested callback\<close>

text \<open>
  \<^verbatim>\<open>size_t\<close> is the 64-bit unsigned type of the LP64 platforms the program is
  built on: \<open>*\<close>, \<open>+\<close> and \<open>-\<close> on it wrap around modulo \<open>2 ^ 64\<close>. A \<^verbatim>\<open>char\<close> buffer
  is a list of bytes; a pointer that may be \<^verbatim>\<open>NULL\<close> is an \<open>option\<close>.
\<close>

type_synonym size_t = "64 word"
type_synonym byte = "8 word"
type_synonym CURL = nat

text \<open>
  \<^verbatim>\<open>upload_buffer_info_t\<close>: the field \<^verbatim>\<open>size\<close> is called \<open>size_bytes\<close> here
  (\<open>size\<close> is a constant of HOL).
\<close>

record upload_buffer_info_t =
  buffer :: "byte list option"
  size_bytes :: size_t

text \<open>
  \<^verbatim>\<open>upload_stream_context_t\<close>. The C field \<^verbatim>\<open>buffer_info\<close> points to the buffer
  descriptor shared by all streams of a run; the descriptor is written once by
  \<^verbatim>\<open>generate_upload_data\<close> before any stream exists and again only by
  \<^verbatim>\<open>free_upload_data\<close> after the last use of every stream, so each context carries
  the descriptor it points to.
\<close>

record upload_stream_context_t =
  easy_handle :: "CURL option"
  buffer_info :: "upload_buffer_info_t option"
  bytes_sent :: size_t

abbreviation CURL_READFUNC_ABORT :: size_t where
  "CURL_READFUNC_ABORT \<equiv> 0x10000000"

text \<open>
  \<^verbatim>\<open>memcpy(dest, src + off, n)\<close>: the first \<open>n\<close> bytes of the destination are replaced by
  the \<open>n\<close> bytes of the source that start at offset \<open>off\<close>.
\<close>

definition memcpy :: "byte list \<Rightarrow> byte list \<Rightarrow> nat \<Rightarrow> nat \<Rightarrow> byte list" where
  "memcpy dest src off n = take n (drop off src) @ drop n dest"

text \<open>
  \<^verbatim>\<open>curl_read_callback(dest_buffer, size, nitems, userp)\<close>. The result is the
  destination buffer, the stream context behind \<^verbatim>\<open>userp\<close> and the returned count.
\<close>

definition curl_read_callback ::
  "byte list \<Rightarrow> size_t \<Rightarrow> size_t \<Rightarrow> upload_stream_context_t option
     \<Rightarrow> byte list \<times> upload_stream_context_t option \<times> size_t" where
  "curl_read_callback dest_buffer sz nitems userp =
     (case userp of
        None \<Rightarrow> (dest_buffer, userp, CURL_READFUNC_ABORT)
      | Some stream_ctx \<Rightarrow>
          (case buffer_info stream_ctx of
             None \<Rightarrow> (dest_buffer, userp, CURL_READFUNC_ABORT)
           | Some info \<Rightarrow>
               (case buffer info of
                  None \<Rightarrow> (dest_buffer, userp, CURL_READFUNC_ABORT)
                | Some buf \<Rightarrow>
                    (let buffer_max_provide = sz * nitems;
                         remaining_in_stream = size_bytes info - bytes_sent stream_ctx;
                         to_copy = (if buffer_max_provide < remaining_in_stream
                                    then buffer_max_provide else remaining_in_stream)
                     in if to_copy > 0
                        then (memcpy dest_buffer buf (unat (bytes_sent stream_ctx)) (unat to_copy),
                              Some (stream_ctx\<lparr>bytes_sent := bytes_sent stream_ctx + to_copy\<rparr>),
                              to_copy)
                        else (dest_buffer, userp, to_copy)))))"

text \<open>
  \<^verbatim>\<open>generate_upload_data(buffer_info, size_bytes)\<close>: \<^verbatim>\<open>malloc\<close> either fails or gives
  \<open>size_bytes\<close> bytes, which \<^verbatim>\<open>memset\<close> sets to zero.
\<close>

definition generate_upload_data :: "bool \<Rightarrow> size_t \<Rightarrow> upload_buffer_info_t" where
  "generate_upload_data malloc_ok n =
     (if malloc_ok then \<lparr>buffer = Some (replicate (unat n) 0), size_bytes = n\<rparr>
      else \<lparr>buffer = None, size_bytes = 0\<rparr>)"

definition free_upload_data :: "upload_buffer_info_t \<Rightarrow> upload_buffer_info_t" where
  "free_upload_data info = \<lparr>buffer = None, size_bytes = 0\<rparr>"

text \<open>
  The transfer library invokes the callback once per request \<open>(size, nitems)\<close>, each time
  with a destination of \<open>size * nitems\<close> bytes. \<open>read_once\<close> is one invocation (the context afterwards and the returned count),
  \<open>read_calls\<close> performs the invocations in order on one stream and gives the final
  context; \<open>cursor_trace\<close> lists the cursor before the first invocation and after each.
\<close>

definition read_once ::
  "size_t \<times> size_t \<Rightarrow> upload_stream_context_t \<Rightarrow> upload_stream_context_t \<times> size_t" where
  "read_once rq ctx =
     (case curl_read_callback (replicate (unat (fst rq * snd rq)) 0) (fst rq) (snd rq) (Some ctx) of
        (dest, userp, ret) \<Rightarrow> (case userp of Some ctx' \<Rightarrow> (ctx', ret) | None \<Rightarrow> (ctx, ret)))"

fun read_calls ::
  "(size_t \<times> size_t) list \<Rightarrow> upload_stream_context_t \<Rightarrow> upload_stream_context_t" where
  "read_calls [] ctx = ctx"
| "read_calls (rq # rqs) ctx = read_calls rqs (fst (read_once rq ctx))"


text \<open>The context of connection \<open>i\<close> as \<^verbatim>\<open>perform_upload_test\<close> initialises it.\<close>

definition fresh_stream :: "upload_buffer_info_t \<Rightarrow> CURL option \<Rightarrow> upload_stream_context_t" where
  "fresh_stream shared h = \<lparr>easy_handle = h, buffer_info = Some shared, bytes_sent = 0\<rparr>"

section \<open>The reactor and the transfer library, as the engine sees them\<close>

text \<open>
  The program is glue between two libraries. Their handles are part of the state the
  program works on, so each is modelled by the state its documented interface exposes;
  what a library decides by itself (a return code, which callbacks it invokes during a
  call, which events the reactor delivers) is an input of the model.
\<close>

type_synonym curl_socket_t = int
type_synonym uv_poll_ptr = nat
type_synonym CURLcode = int
type_synonym CURLMcode = int

definition CURLE_OK :: CURLcode where [simp]: "CURLE_OK = 0"
definition CURLM_OK :: CURLMcode where [simp]: "CURLM_OK = 0"
definition CURLM_BAD_SOCKET :: CURLMcode where [simp]: "CURLM_BAD_SOCKET = 5"
definition CURL_SOCKET_TIMEOUT :: curl_socket_t where [simp]: "CURL_SOCKET_TIMEOUT = - 1"
definition CURL_SOCKET_BAD :: int where [simp]: "CURL_SOCKET_BAD = - 1"
definition CURL_SOCKET_OK :: int where [simp]: "CURL_SOCKET_OK = 0"
definition CURL_POLL_NONE :: int where [simp]: "CURL_POLL_NONE = 0"
definition CURL_POLL_IN :: int where [simp]: "CURL_POLL_IN = 1"
definition CURL_POLL_OUT :: int where [simp]: "CURL_POLL_OUT = 2"
definition CURL_POLL_INOUT :: int where [simp]: "CURL_POLL_INOUT = 3"
definition CURL_POLL_REMOVE :: int where [simp]: "CURL_POLL_REMOVE = 4"
definition CURL_CSELECT_IN :: int where [simp]: "CURL_CSELECT_IN = 1"
definition CURL_CSELECT_OUT :: int where [simp]: "CURL_CSELECT_OUT = 2"
definition UV_READABLE :: int where [simp]: "UV_READABLE = 1"
definition UV_WRITABLE :: int where [simp]: "UV_WRITABLE = 2"

subsection \<open>Reactor handles\<close>

text \<open>
  A \<^verbatim>\<open>uv_timer_t\<close>: whether it is active, the delay and repeat interval (milliseconds)
  it was last started with, and whether \<^verbatim>\<open>uv_close\<close> was called on it and its close
  callback is still to run.
\<close>

record uv_timer_t =
  timer_active :: bool
  timer_timeout :: int
  timer_repeat :: int
  timer_closing :: bool

definition uv_timer_init :: uv_timer_t where
  "uv_timer_init = \<lparr>timer_active = False, timer_timeout = 0, timer_repeat = 0, timer_closing = False\<rparr>"

text \<open>\<^verbatim>\<open>uv_timer_start\<close> refuses a handle that is being closed; otherwise it replaces
  whatever the timer was scheduled for.\<close>

definition uv_timer_start :: "uv_timer_t \<Rightarrow> int \<Rightarrow> int \<Rightarrow> uv_timer_t" where
  "uv_timer_start tm timeout repeat =
     (if timer_closing tm then tm
      else tm\<lparr>timer_active := True, timer_timeout := timeout, timer_repeat := repeat\<rparr>)"

definition uv_timer_stop :: "uv_timer_t \<Rightarrow> uv_timer_t" where
  "uv_timer_stop tm = tm\<lparr>timer_active := False\<rparr>"

definition uv_close_timer :: "uv_timer_t \<Rightarrow> uv_timer_t" where
  "uv_close_timer tm = tm\<lparr>timer_active := False, timer_closing := True\<rparr>"

text \<open>A timer that expires is stopped, and started again when it has a repeat interval.\<close>

definition timer_expire :: "uv_timer_t \<Rightarrow> uv_timer_t" where
  "timer_expire tm =
     (if timer_repeat tm = 0 then tm\<lparr>timer_active := False\<rparr>
      else tm\<lparr>timer_active := True, timer_timeout := timer_repeat tm\<rparr>)"

text \<open>
  A \<^verbatim>\<open>uv_poll_t\<close> that \<^verbatim>\<open>uv_poll_init_socket\<close> has initialised: its descriptor, the
  events it is polling for (0 when stopped) and whether it is being closed.
\<close>

record uv_poll_t =
  poll_fd :: curl_socket_t
  poll_events :: int
  poll_closing :: bool

subsection \<open>Completion messages, output and the global state\<close>

datatype CURLMSG = CURLMSG_NONE | CURLMSG_DONE

datatype CURLMsg = CURLMsg (msg: CURLMSG) (msg_easy_handle: CURL) (msg_result: CURLcode)

datatype test_type = Download | Upload

datatype uv_run_mode = UV_RUN_DEFAULT | UV_RUN_ONCE | UV_RUN_NOWAIT

text \<open>The lines the program writes to \<^verbatim>\<open>stderr\<close>, by the place that writes them.\<close>

datatype message =
    Msg_exceeded_max
  | Msg_timer_init_failed int
  | Msg_easy_init_failed nat
  | Msg_setopt_failed nat CURLcode
  | Msg_add_handle_failed nat CURLMcode
  | Msg_no_connections test_type
  | Msg_upload_data_failed
  | Msg_transfer_failed CURL CURLcode
  | Msg_socket_action_failed CURLMcode
  | Msg_poll_alloc_failed
  | Msg_loop_not_initialized
  | Msg_poll_init_failed int
  | Msg_multi_assign_failed CURLMcode
  | Msg_poll_start_failed int
  | Msg_socket_event_error int
  | Msg_fileno_failed

text \<open>
  What a run does that can be observed from outside, in order: the calls into the
  transfer library that drive or end a transfer, the calls of \<^verbatim>\<open>uv_run\<close>, the error
  lines and the result block of \<^verbatim>\<open>print_test_results\<close>. \<open>Ev_easy_cleanup h r\<close> is
  \<^verbatim>\<open>curl_easy_cleanup(h)\<close>, with \<open>r\<close> telling whether \<open>h\<close> was registered with the multi
  handle at that moment.
\<close>

datatype event =
    Ev_socket_action curl_socket_t int
  | Ev_multi_remove CURL
  | Ev_easy_cleanup CURL bool
  | Ev_uv_run uv_run_mode
  | Ev_stderr message
  | Ev_results test_type int int real real

text \<open>
  The globals of \<^verbatim>\<open>main.c\<close> (\<open>loop\<close> tells whether the pointer is set), the two
  function-static duration timers, the state behind \<^verbatim>\<open>curl_multi_handle\<close> (the easy
  handles added to it, its queue of messages, and for each socket it knows the pointer
  \<^verbatim>\<open>curl_multi_assign\<close> stored), the \<^verbatim>\<open>uv_poll_t\<close> objects on the heap, the easy handles
  that exist, and the stream contexts of the upload run in progress (its callbacks reach
  them through \<^verbatim>\<open>CURLOPT_READDATA\<close>).
\<close>

record engine =
  loop :: bool
  running_handles :: int
  total_downloaded_bytes :: int
  timeout_timer :: uv_timer_t
  test_duration_timer :: uv_timer_t
  test_duration_timer_upload :: uv_timer_t
  multi_handles :: "CURL list"
  multi_msgs :: "CURLMsg list"
  multi_sockets :: "curl_socket_t \<rightharpoonup> uv_poll_ptr option"
  polls :: "uv_poll_ptr \<rightharpoonup> uv_poll_t"
  next_poll :: nat
  easy_live :: "CURL list"
  next_easy :: nat
  stream_contexts :: "upload_stream_context_t list"
  trace :: "event list"

definition emit :: "event \<Rightarrow> engine \<Rightarrow> engine" where
  "emit e s = s\<lparr>trace := trace s @ [e]\<rparr>"

subsection \<open>Calls into the reactor\<close>

definition uv_poll_stop :: "uv_poll_ptr \<Rightarrow> engine \<Rightarrow> engine" where
  "uv_poll_stop h s =
     (case polls s h of
        None \<Rightarrow> s
      | Some p \<Rightarrow> s\<lparr>polls := (polls s)(h \<mapsto> p\<lparr>poll_events := 0\<rparr>)\<rparr>)"

text \<open>\<^verbatim>\<open>uv_poll_start\<close> with the result the reactor gives; on success the handle polls for
  exactly the events passed.\<close>

definition uv_poll_start :: "uv_poll_ptr \<Rightarrow> int \<Rightarrow> int \<Rightarrow> engine \<Rightarrow> engine" where
  "uv_poll_start h events rc s =
     (case polls s h of
        None \<Rightarrow> s
      | Some p \<Rightarrow> if rc = 0 then s\<lparr>polls := (polls s)(h \<mapsto> p\<lparr>poll_events := events\<rparr>)\<rparr> else s)"

text \<open>\<^verbatim>\<open>uv_close(h, free_poll_handle)\<close>: the handle stops at once; the reactor frees it
  when it runs the close callbacks.\<close>

definition uv_close_poll :: "uv_poll_ptr \<Rightarrow> engine \<Rightarrow> engine" where
  "uv_close_poll h s =
     (case polls s h of
        None \<Rightarrow> s
      | Some p \<Rightarrow> s\<lparr>polls := (polls s)(h \<mapsto> p\<lparr>poll_events := 0, poll_closing := True\<rparr>)\<rparr>)"

subsection \<open>Calls into the transfer library\<close>

text \<open>\<^verbatim>\<open>curl_multi_assign\<close> stores the pointer for a socket the multi handle knows and
  fails for any other.\<close>

definition curl_multi_assign ::
  "curl_socket_t \<Rightarrow> uv_poll_ptr option \<Rightarrow> engine \<Rightarrow> engine \<times> CURLMcode" where
  "curl_multi_assign sockfd p s =
     (if sockfd \<in> dom (multi_sockets s)
      then (s\<lparr>multi_sockets := (multi_sockets s)(sockfd \<mapsto> p)\<rparr>, CURLM_OK)
      else (s, CURLM_BAD_SOCKET))"

text \<open>The pointer the library passes as \<^verbatim>\<open>socketp\<close> for a descriptor.\<close>

definition socketp_of :: "engine \<Rightarrow> curl_socket_t \<Rightarrow> uv_poll_ptr option" where
  "socketp_of s sockfd = (case multi_sockets s sockfd of None \<Rightarrow> None | Some p \<Rightarrow> p)"

definition curl_multi_info_read :: "engine \<Rightarrow> CURLMsg option \<times> engine" where
  "curl_multi_info_read s =
     (case multi_msgs s of
        [] \<Rightarrow> (None, s)
      | m # ms \<Rightarrow> (Some m, s\<lparr>multi_msgs := ms\<rparr>))"

definition curl_multi_remove_handle :: "CURL \<Rightarrow> engine \<Rightarrow> engine" where
  "curl_multi_remove_handle h s =
     emit (Ev_multi_remove h) (s\<lparr>multi_handles := removeAll h (multi_handles s)\<rparr>)"

definition curl_easy_init :: "engine \<Rightarrow> CURL \<times> engine" where
  "curl_easy_init s =
     (next_easy s, s\<lparr>easy_live := easy_live s @ [next_easy s], next_easy := Suc (next_easy s)\<rparr>)"

section \<open>The engine\<close>

subsection \<open>Draining completed transfers\<close>

text \<open>The \<^verbatim>\<open>while\<close> loop of \<^verbatim>\<open>check_multi_info\<close>, with its local counter.\<close>

function check_multi_info_loop :: "engine \<Rightarrow> int \<Rightarrow> engine \<times> int" where
  "check_multi_info_loop s current_running_handles =
     (case curl_multi_info_read s of
        (None, s') \<Rightarrow> (s', current_running_handles)
      | (Some m, s') \<Rightarrow>
          if msg m = CURLMSG_DONE
          then check_multi_info_loop
                 (curl_multi_remove_handle (msg_easy_handle m)
                    (if msg_result m \<noteq> CURLE_OK
                     then emit (Ev_stderr (Msg_transfer_failed (msg_easy_handle m) (msg_result m))) s'
                     else s'))
                 (current_running_handles - 1)
          else check_multi_info_loop s' current_running_handles)"
  by pat_completeness auto
termination
  by (relation "measure (\<lambda>(s, n). length (multi_msgs s))")
     (auto simp: curl_multi_info_read_def curl_multi_remove_handle_def emit_def split: list.splits)

declare check_multi_info_loop.simps [simp del]

definition check_multi_info :: "engine \<Rightarrow> engine" where
  "check_multi_info s =
     (case check_multi_info_loop s (running_handles s) of
        (s', current_running_handles) \<Rightarrow>
          (let s'' = s'\<lparr>running_handles := current_running_handles\<rparr>
           in if running_handles s'' = 0 \<and> timer_active (timeout_timer s'')
              then s''\<lparr>timeout_timer := uv_timer_stop (timeout_timer s'')\<rparr>
              else s''))"

subsection \<open>The socket-action callback\<close>

text \<open>What the environment decides during one invocation of the socket callback: whether
  \<^verbatim>\<open>malloc\<close> succeeds, and the results of \<^verbatim>\<open>uv_poll_init_socket\<close> and \<^verbatim>\<open>uv_poll_start\<close>.\<close>

datatype sock_env = Sock_env (malloc_ok: bool) (init_err: int) (start_err: int)

text \<open>
  The block of \<^verbatim>\<open>curl_perform_socket_action\<close> that creates the watcher of a new socket:
  \<open>Inl\<close> is an early \<^verbatim>\<open>return\<close> with its value, \<open>Inr\<close> the new handle.
\<close>

definition new_poll_handle ::
  "curl_socket_t \<Rightarrow> sock_env \<Rightarrow> engine \<Rightarrow> (engine \<times> int) + (uv_poll_ptr \<times> engine)" where
  "new_poll_handle sockfd env s =
     (if \<not> malloc_ok env then Inl (emit (Ev_stderr Msg_poll_alloc_failed) s, - 1)
      else
        let poll_handle = next_poll s;
            s1 = s\<lparr>next_poll := Suc (next_poll s)\<rparr>
        in if \<not> loop s1 then Inl (emit (Ev_stderr Msg_loop_not_initialized) s1, - 1)
           else if init_err env \<noteq> 0
           then Inl (emit (Ev_stderr (Msg_poll_init_failed (init_err env))) s1, - 1)
           else
             let s2 = s1\<lparr>polls := (polls s1)(poll_handle \<mapsto>
                         \<lparr>poll_fd = sockfd, poll_events = 0, poll_closing = False\<rparr>)\<rparr>
             in case curl_multi_assign sockfd (Some poll_handle) s2 of
                  (s3, mc) \<Rightarrow>
                    if mc \<noteq> CURLM_OK
                    then Inl (uv_close_poll poll_handle (emit (Ev_stderr (Msg_multi_assign_failed mc)) s3),
                              CURL_SOCKET_BAD)
                    else Inr (poll_handle, s3))"

definition curl_perform_socket_action ::
  "CURL \<Rightarrow> curl_socket_t \<Rightarrow> int \<Rightarrow> uv_poll_ptr option \<Rightarrow> sock_env \<Rightarrow> engine \<Rightarrow> engine \<times> int" where
  "curl_perform_socket_action easy sockfd action socketp env s =
     (if action = CURL_POLL_REMOVE
      then (case socketp of
              Some poll_handle \<Rightarrow>
                (fst (curl_multi_assign sockfd None
                        (uv_close_poll poll_handle (uv_poll_stop poll_handle s))),
                 CURL_SOCKET_OK)
            | None \<Rightarrow> (s, CURL_SOCKET_OK))
      else
        (case (case socketp of
                 Some poll_handle \<Rightarrow> Inr (poll_handle, s)
               | None \<Rightarrow> new_poll_handle sockfd env s) of
           Inl early \<Rightarrow> early
         | Inr (poll_handle, s1) \<Rightarrow>
             (let events = (if action = CURL_POLL_IN \<or> action = CURL_POLL_INOUT
                            then UV_READABLE else 0)
                           OR
                           (if action = CURL_POLL_OUT \<or> action = CURL_POLL_INOUT
                            then UV_WRITABLE else 0)
              in if events \<noteq> 0
                 then (let start_err = start_err env;
                           s2 = uv_poll_start poll_handle events start_err s1
                       in if start_err \<noteq> 0
                          then (let s3 = emit (Ev_stderr (Msg_poll_start_failed start_err)) s2
                                in if socketp = None
                                   then (fst (curl_multi_assign sockfd None
                                                (uv_close_poll poll_handle s3)),
                                         CURL_SOCKET_BAD)
                                   else (s3, CURL_SOCKET_OK))
                          else (s2, CURL_SOCKET_OK))
                 else (uv_poll_stop poll_handle s1, CURL_SOCKET_OK))))"

subsection \<open>The data-received callback\<close>

text \<open>
  \<^verbatim>\<open>total_downloaded_bytes += received_bytes\<close> adds a \<^verbatim>\<open>size_t\<close> to a \<^verbatim>\<open>long long\<close>: the
  sum is formed in the unsigned 64-bit type and stored back as a \<^verbatim>\<open>long long\<close>, so it
  wraps around.
\<close>

definition curl_write_callback :: "size_t \<Rightarrow> size_t \<Rightarrow> engine \<Rightarrow> engine \<times> size_t" where
  "curl_write_callback sz nmemb s =
     (let received_bytes = sz * nmemb
      in (s\<lparr>total_downloaded_bytes :=
               sint (word_of_int (total_downloaded_bytes s) + received_bytes)\<rparr>,
          received_bytes))"

subsection \<open>The library at work, and the deadline callback\<close>

text \<open>
  During \<^verbatim>\<open>curl_multi_socket_action\<close> (and \<^verbatim>\<open>curl_multi_add_handle\<close>) the library
  invokes the callbacks registered with it, on the caller's stack, and queues completion
  messages. What it does in one call is a \<open>lib_pump\<close>: the steps in order, and the
  running count and result code it reports. A step that invokes the timer callback
  carries what the library does if the callback calls it back.
\<close>

datatype lib_step =
    Call_socket CURL curl_socket_t int sock_env
  | Call_timer int lib_pump
  | Call_write size_t size_t
  | Call_read nat size_t size_t
  | Post_msg CURLMsg
and lib_pump = Lib_pump (pump_steps: "lib_step list") (pump_running: int) (pump_rc: CURLMcode)

text \<open>
  The library invoking the socket callback: a socket it reports for the first time enters
  its table before the call, the pointer stored for the socket is passed as \<^verbatim>\<open>socketp\<close>,
  and a removed socket leaves the table after the call.
\<close>

definition call_socket_function ::
  "CURL \<Rightarrow> curl_socket_t \<Rightarrow> int \<Rightarrow> sock_env \<Rightarrow> engine \<Rightarrow> engine" where
  "call_socket_function easy sockfd action env s =
     (let s1 = (if action \<noteq> CURL_POLL_REMOVE \<and> sockfd \<notin> dom (multi_sockets s)
                then s\<lparr>multi_sockets := (multi_sockets s)(sockfd \<mapsto> None)\<rparr> else s);
          s2 = fst (curl_perform_socket_action easy sockfd action (socketp_of s1 sockfd) env s1)
      in if action = CURL_POLL_REMOVE
         then s2\<lparr>multi_sockets := (multi_sockets s2)(sockfd := None)\<rparr> else s2)"

text \<open>The library invoking the read callback of upload stream \<open>i\<close>.\<close>

definition call_read_function :: "nat \<Rightarrow> size_t \<Rightarrow> size_t \<Rightarrow> engine \<Rightarrow> engine" where
  "call_read_function i sz nitems s =
     (if i < length (stream_contexts s)
      then s\<lparr>stream_contexts :=
               (stream_contexts s)[i := fst (read_once (sz, nitems) (stream_contexts s ! i))]\<rparr>
      else s)"

text \<open>
  \<^verbatim>\<open>handle_curl_timeout\<close> is the timer callback; with a timeout of 0 it calls
  \<^verbatim>\<open>curl_multi_socket_action\<close> itself, so the two are defined together with the
  library's steps.
\<close>

fun curl_multi_socket_action ::
      "lib_pump \<Rightarrow> curl_socket_t \<Rightarrow> int \<Rightarrow> engine \<Rightarrow> engine \<times> int \<times> CURLMcode"
  and run_lib_steps :: "lib_step list \<Rightarrow> engine \<Rightarrow> engine"
  and run_lib_step :: "lib_step \<Rightarrow> engine \<Rightarrow> engine"
  and handle_curl_timeout :: "lib_pump \<Rightarrow> int \<Rightarrow> engine \<Rightarrow> engine \<times> int"
where
  "curl_multi_socket_action (Lib_pump steps still_running rc) sockfd flags s =
     (run_lib_steps steps (emit (Ev_socket_action sockfd flags) s), still_running, rc)"
| "run_lib_steps [] s = s"
| "run_lib_steps (x # xs) s = run_lib_steps xs (run_lib_step x s)"
| "run_lib_step (Call_socket easy sockfd action env) s = call_socket_function easy sockfd action env s"
| "run_lib_step (Call_timer timeout_ms reentry) s = fst (handle_curl_timeout reentry timeout_ms s)"
| "run_lib_step (Call_write sz nmemb) s = fst (curl_write_callback sz nmemb s)"
| "run_lib_step (Call_read i sz nitems) s = call_read_function i sz nitems s"
| "run_lib_step (Post_msg m) s = s\<lparr>multi_msgs := multi_msgs s @ [m]\<rparr>"
| "handle_curl_timeout reentry timeout_ms s =
     (if timeout_ms < 0
      then (s\<lparr>timeout_timer := uv_timer_stop (timeout_timer s)\<rparr>, 0)
      else if timeout_ms = 0
      then (case curl_multi_socket_action reentry CURL_SOCKET_TIMEOUT 0 s of
              (s1, local_still_running, mc) \<Rightarrow>
                (check_multi_info
                   ((if mc \<noteq> CURLM_OK then emit (Ev_stderr (Msg_socket_action_failed mc)) s1 else s1)
                      \<lparr>running_handles := local_still_running\<rparr>),
                 0))
      else (s\<lparr>timeout_timer := uv_timer_start (timeout_timer s) timeout_ms 0\<rparr>, 0))"

subsection \<open>Reactor callbacks\<close>

definition on_uv_curl_timeout :: "lib_pump \<Rightarrow> engine \<Rightarrow> engine" where
  "on_uv_curl_timeout reaction s =
     (case curl_multi_socket_action reaction CURL_SOCKET_TIMEOUT 0 s of
        (s1, local_still_running, mc) \<Rightarrow>
          check_multi_info
            ((if mc \<noteq> CURLM_OK then emit (Ev_stderr (Msg_socket_action_failed mc)) s1 else s1)
               \<lparr>running_handles := local_still_running\<rparr>))"

text \<open>\<^verbatim>\<open>uv_fileno\<close> gives the descriptor of an open handle and fails for one that is
  closing or gone.\<close>

definition uv_fileno :: "engine \<Rightarrow> uv_poll_ptr \<Rightarrow> curl_socket_t option" where
  "uv_fileno s h =
     (case polls s h of
        None \<Rightarrow> None
      | Some p \<Rightarrow> if poll_closing p then None else Some (poll_fd p))"

definition on_uv_socket_event :: "lib_pump \<Rightarrow> uv_poll_ptr \<Rightarrow> int \<Rightarrow> int \<Rightarrow> engine \<Rightarrow> engine" where
  "on_uv_socket_event reaction handle status events s =
     (let s0 = (if status < 0 then emit (Ev_stderr (Msg_socket_event_error status)) s else s);
          flags = (if events AND UV_READABLE \<noteq> 0 then CURL_CSELECT_IN else 0)
                  OR (if events AND UV_WRITABLE \<noteq> 0 then CURL_CSELECT_OUT else 0)
      in case uv_fileno s0 handle of
           None \<Rightarrow> emit (Ev_stderr Msg_fileno_failed) s0
         | Some sockfd \<Rightarrow>
             (case curl_multi_socket_action reaction sockfd flags s0 of
                (s1, local_still_running, mc) \<Rightarrow>
                  check_multi_info
                    ((if mc \<noteq> CURLM_OK then emit (Ev_stderr (Msg_socket_action_failed mc)) s1 else s1)
                       \<lparr>running_handles := local_still_running\<rparr>)))"

section \<open>The event loop\<close>

text \<open>
  What the reactor can deliver while \<^verbatim>\<open>uv_run\<close> is on the stack: one of the three timers
  expires, or a poll handle reports a status and events. The events that make the
  engine call the transfer library carry what the library does in that call.
\<close>

datatype uv_event =
    Timeout_timer_due lib_pump
  | Test_timer_due
  | Test_timer_upload_due
  | Poll_ready uv_poll_ptr int int lib_pump

text \<open>\<^verbatim>\<open>on_test_timeout_dummy\<close> has an empty body.\<close>

definition on_test_timeout_dummy :: "engine \<Rightarrow> engine" where
  "on_test_timeout_dummy s = s"

text \<open>The reactor delivers an event only to a handle that is active.\<close>

definition uv_dispatch :: "uv_event \<Rightarrow> engine \<Rightarrow> engine" where
  "uv_dispatch e s =
     (case e of
        Timeout_timer_due reaction \<Rightarrow>
          if timer_active (timeout_timer s)
          then on_uv_curl_timeout reaction (s\<lparr>timeout_timer := timer_expire (timeout_timer s)\<rparr>)
          else s
      | Test_timer_due \<Rightarrow>
          if timer_active (test_duration_timer s)
          then on_test_timeout_dummy (s\<lparr>test_duration_timer := timer_expire (test_duration_timer s)\<rparr>)
          else s
      | Test_timer_upload_due \<Rightarrow>
          if timer_active (test_duration_timer_upload s)
          then on_test_timeout_dummy
                 (s\<lparr>test_duration_timer_upload := timer_expire (test_duration_timer_upload s)\<rparr>)
          else s
      | Poll_ready h status events reaction \<Rightarrow>
          (case polls s h of
             None \<Rightarrow> s
           | Some p \<Rightarrow>
               if poll_events p \<noteq> 0 then on_uv_socket_event reaction h status events s else s))"

text \<open>
  The end of a loop iteration runs the close callbacks: \<^verbatim>\<open>free_poll_handle\<close> frees a
  closed poll handle; the timers are closed with no callback.
\<close>

definition uv_run_closing :: "engine \<Rightarrow> engine" where
  "uv_run_closing s =
     s\<lparr>timeout_timer := (timeout_timer s)\<lparr>timer_closing := False\<rparr>,
       test_duration_timer := (test_duration_timer s)\<lparr>timer_closing := False\<rparr>,
       test_duration_timer_upload := (test_duration_timer_upload s)\<lparr>timer_closing := False\<rparr>,
       polls := (\<lambda>h. case polls s h of
                        None \<Rightarrow> None
                      | Some p \<Rightarrow> if poll_closing p then None else Some p)\<rparr>"

text \<open>The loop is alive while a handle is active or waits for its close callback.\<close>

definition timer_alive :: "uv_timer_t \<Rightarrow> bool" where
  "timer_alive tm = (timer_active tm \<or> timer_closing tm)"

definition poll_alive :: "engine \<Rightarrow> uv_poll_ptr \<Rightarrow> bool" where
  "poll_alive s h =
     (case polls s h of None \<Rightarrow> False | Some p \<Rightarrow> poll_events p \<noteq> 0 \<or> poll_closing p)"

definition uv_loop_alive :: "engine \<Rightarrow> bool" where
  "uv_loop_alive s =
     (timer_alive (timeout_timer s) \<or> timer_alive (test_duration_timer s) \<or>
      timer_alive (test_duration_timer_upload s) \<or>
      list_ex (poll_alive s) [0..<next_poll s])"

text \<open>
  \<^verbatim>\<open>uv_run(loop, UV_RUN_DEFAULT)\<close>, after the call is recorded: it returns when the
  loop is not alive; otherwise it waits for the next event, delivers it and runs the close
  callbacks. When the loop is alive and the reactor has nothing more to deliver, the call
  never returns: the result is \<open>None\<close>.
\<close>

fun uv_run_default_loop :: "uv_event list \<Rightarrow> engine \<Rightarrow> engine option" where
  "uv_run_default_loop [] s = (if uv_loop_alive s then None else Some s)"
| "uv_run_default_loop (e # es) s =
     (if uv_loop_alive s then uv_run_default_loop es (uv_run_closing (uv_dispatch e s)) else Some s)"

definition uv_run_default :: "uv_event list \<Rightarrow> engine \<Rightarrow> engine option" where
  "uv_run_default evs s = uv_run_default_loop evs (emit (Ev_uv_run UV_RUN_DEFAULT) s)"

text \<open>\<^verbatim>\<open>uv_run(loop, UV_RUN_NOWAIT)\<close>: one iteration that does not wait, delivering what
  is due at that moment.\<close>

definition uv_run_nowait :: "uv_event list \<Rightarrow> engine \<Rightarrow> engine" where
  "uv_run_nowait evs s =
     (let s1 = emit (Ev_uv_run UV_RUN_NOWAIT) s
      in if uv_loop_alive s1 then uv_run_closing (fold uv_dispatch evs s1) else s1)"

section \<open>Test runs\<close>

datatype CURLoption =
    CURLOPT_URL | CURLOPT_WRITEFUNCTION | CURLOPT_UPLOAD | CURLOPT_READFUNCTION
  | CURLOPT_READDATA | CURLOPT_INFILESIZE_LARGE

text \<open>
  What the transfer library decides while connection \<open>i\<close> is set up: whether
  \<^verbatim>\<open>curl_easy_init\<close> gives a handle, the results of the checked \<^verbatim>\<open>curl_easy_setopt\<close>
  calls, and the result of \<^verbatim>\<open>curl_multi_add_handle\<close> with the callbacks it invokes when
  it accepts the handle.
\<close>

datatype conn_env =
  Conn_env (easy_init_ok: bool) (setopt_rc: "CURLoption \<Rightarrow> CURLcode") (add_rc: CURLMcode)
           (add_steps: "lib_step list")

text \<open>
  The inputs of one run: the result of \<^verbatim>\<open>uv_timer_init\<close>, whether the payload buffer can
  be allocated, the two readings of \<^verbatim>\<open>uv_hrtime\<close>, the connections, the events the
  reactor delivers during the blocking \<^verbatim>\<open>uv_run\<close> and during the non-blocking one that
  follows the closing of the duration timer, and the callbacks the library invokes when
  \<^verbatim>\<open>curl_easy_cleanup\<close> is given a handle that is still registered.
\<close>

record run_env =
  timer_init_rc :: int
  buffer_malloc_ok :: bool
  start_time_ns :: "64 word"
  end_time_ns :: "64 word"
  conn :: "nat \<Rightarrow> conn_env"
  loop_events :: "uv_event list"
  nowait_events :: "uv_event list"
  cleanup_steps :: "CURL \<Rightarrow> lib_step list"

definition curl_multi_add_handle :: "conn_env \<Rightarrow> CURL \<Rightarrow> engine \<Rightarrow> engine \<times> CURLMcode" where
  "curl_multi_add_handle c h s =
     (if add_rc c = CURLM_OK
      then (run_lib_steps (add_steps c) (s\<lparr>multi_handles := multi_handles s @ [h]\<rparr>), CURLM_OK)
      else (s, add_rc c))"

text \<open>
  \<^verbatim>\<open>curl_easy_cleanup(h)\<close>. A handle that is still registered with the multi handle is
  first taken out of it by the library itself, which can invoke the callbacks while it
  does so (\<open>detach\<close>); then the handle is freed.
\<close>

definition curl_easy_cleanup :: "lib_step list \<Rightarrow> CURL \<Rightarrow> engine \<Rightarrow> engine" where
  "curl_easy_cleanup detach h s =
     (let s1 = emit (Ev_easy_cleanup h (h \<in> set (multi_handles s))) s;
          s2 = (if h \<in> set (multi_handles s1)
                then run_lib_steps detach (s1\<lparr>multi_handles := removeAll h (multi_handles s1)\<rparr>)
                else s1)
      in s2\<lparr>easy_live := removeAll h (easy_live s2)\<rparr>)"

text \<open>Stopping a duration timer when it is active and closing it: the same statements
  in every place.\<close>

definition close_test_timer :: "uv_timer_t \<Rightarrow> uv_timer_t" where
  "close_test_timer tm = uv_close_timer (if timer_active tm then uv_timer_stop tm else tm)"

subsection \<open>Download\<close>

text \<open>
  One iteration of the registration loop of \<^verbatim>\<open>perform_download_test\<close>, on the engine,
  the array \<^verbatim>\<open>easy_handles\<close> and the counter \<^verbatim>\<open>successfully_added_handles\<close>.
\<close>

definition download_connection ::
  "run_env \<Rightarrow> nat \<Rightarrow> engine \<times> CURL list \<times> int \<Rightarrow> engine \<times> CURL list \<times> int" where
  "download_connection env i st =
     (case st of (s, easy_handles, successfully_added_handles) \<Rightarrow>
        (let c = conn env i in
         if \<not> easy_init_ok c
         then (emit (Ev_stderr (Msg_easy_init_failed (i + 1))) s, easy_handles, successfully_added_handles)
         else
           (case curl_easy_init s of (curl_easy, s1) \<Rightarrow>
              if setopt_rc c CURLOPT_URL \<noteq> CURLE_OK
              then (curl_easy_cleanup (cleanup_steps env curl_easy) curl_easy
                      (emit (Ev_stderr (Msg_setopt_failed (i + 1) (setopt_rc c CURLOPT_URL))) s1),
                    easy_handles, successfully_added_handles)
              else if setopt_rc c CURLOPT_WRITEFUNCTION \<noteq> CURLE_OK
              then (curl_easy_cleanup (cleanup_steps env curl_easy) curl_easy
                      (emit (Ev_stderr (Msg_setopt_failed (i + 1) (setopt_rc c CURLOPT_WRITEFUNCTION))) s1),
                    easy_handles, successfully_added_handles)
              else
                (case curl_multi_add_handle c curl_easy s1 of (s2, mc) \<Rightarrow>
                   if mc = CURLM_OK
                   then (s2, easy_handles[nat successfully_added_handles := curl_easy],
                         successfully_added_handles + 1)
                   else (curl_easy_cleanup (cleanup_steps env curl_easy) curl_easy
                           (emit (Ev_stderr (Msg_add_handle_failed (i + 1) mc)) s2),
                         easy_handles, successfully_added_handles)))))"

definition download_register ::
  "run_env \<Rightarrow> int \<Rightarrow> engine \<Rightarrow> engine \<times> CURL list \<times> int" where
  "download_register env num_connections s =
     fold (download_connection env) [0..<nat num_connections] (s, replicate 10 0, 0)"

text \<open>The part of \<^verbatim>\<open>perform_download_test\<close> that follows the return of the blocking
  \<^verbatim>\<open>uv_run\<close>.\<close>

definition download_finish :: "run_env \<Rightarrow> CURL list \<Rightarrow> int \<Rightarrow> engine \<Rightarrow> engine" where
  "download_finish env easy_handles successfully_added_handles s =
     (let actual_test_duration_s = real (unat (end_time_ns env - start_time_ns env)) / 1000000000;
          s1 = uv_run_nowait (nowait_events env)
                 (s\<lparr>test_duration_timer := close_test_timer (test_duration_timer s)\<rparr>);
          speed_mbps_download =
            (if actual_test_duration_s > 0.001 \<and> total_downloaded_bytes s1 > 0
             then (real_of_int (total_downloaded_bytes s1) * 8.0) / actual_test_duration_s
                    / (1000.0 * 1000.0)
             else 0.0);
          s2 = emit (Ev_results Download successfully_added_handles (total_downloaded_bytes s1)
                       actual_test_duration_s speed_mbps_download) s1;
          s3 = fold (\<lambda>h. curl_easy_cleanup (cleanup_steps env h) h)
                 (take (nat successfully_added_handles) easy_handles) s2
      in s3\<lparr>running_handles := 0\<rparr>)"

definition perform_download_test :: "run_env \<Rightarrow> string \<Rightarrow> int \<Rightarrow> engine \<Rightarrow> engine option" where
  "perform_download_test env url num_connections s =
     (let s0 = s\<lparr>total_downloaded_bytes := 0\<rparr> in
      if num_connections > 10 then Some (emit (Ev_stderr Msg_exceeded_max) s0)
      else if timer_init_rc env \<noteq> 0
      then Some (emit (Ev_stderr (Msg_timer_init_failed (timer_init_rc env))) s0)
      else
        (case download_register env num_connections
                (s0\<lparr>test_duration_timer := uv_timer_start uv_timer_init 10000 10000\<rparr>) of
           (s1, easy_handles, successfully_added_handles) \<Rightarrow>
             if successfully_added_handles = 0
             then Some (uv_run_nowait (nowait_events env)
                          ((emit (Ev_stderr (Msg_no_connections Download)) s1)
                             \<lparr>test_duration_timer := close_test_timer (test_duration_timer s1)\<rparr>))
             else
               (case uv_run_default (loop_events env)
                       (s1\<lparr>running_handles := successfully_added_handles\<rparr>) of
                  None \<Rightarrow> None
                | Some s2 \<Rightarrow> Some (download_finish env easy_handles successfully_added_handles s2))))"

subsection \<open>Upload\<close>

text \<open>
  One iteration of the registration loop of \<^verbatim>\<open>perform_upload_test\<close>. The array
  \<^verbatim>\<open>stream_contexts\<close> is in the engine state; entry \<open>i\<close> comes into being when the
  iteration writes it.
\<close>

definition set_easy_handle :: "nat \<Rightarrow> CURL option \<Rightarrow> engine \<Rightarrow> engine" where
  "set_easy_handle i h s =
     s\<lparr>stream_contexts := (stream_contexts s)[i := (stream_contexts s ! i)\<lparr>easy_handle := h\<rparr>]\<rparr>"

definition upload_skip :: "run_env \<Rightarrow> nat \<Rightarrow> CURL \<Rightarrow> CURLcode \<Rightarrow> engine \<Rightarrow> engine" where
  "upload_skip env i h rc s =
     set_easy_handle i None
       (curl_easy_cleanup (cleanup_steps env h) h (emit (Ev_stderr (Msg_setopt_failed (i + 1) rc)) s))"

definition upload_connection ::
  "run_env \<Rightarrow> upload_buffer_info_t \<Rightarrow> nat \<Rightarrow> engine \<times> int \<Rightarrow> engine \<times> int" where
  "upload_connection env shared_upload_data i st =
     (case st of (s, successfully_added_handles) \<Rightarrow>
        (let c = conn env i;
             s0 = s\<lparr>stream_contexts := take i (stream_contexts s) @ [fresh_stream shared_upload_data None]\<rparr>
         in
         if \<not> easy_init_ok c
         then (emit (Ev_stderr (Msg_easy_init_failed (i + 1))) s0, successfully_added_handles)
         else
           (case curl_easy_init s0 of (h, s1') \<Rightarrow>
              (let s1 = set_easy_handle i (Some h) s1' in
               if setopt_rc c CURLOPT_URL \<noteq> CURLE_OK
               then (upload_skip env i h (setopt_rc c CURLOPT_URL) s1, successfully_added_handles)
               else if setopt_rc c CURLOPT_UPLOAD \<noteq> CURLE_OK
               then (upload_skip env i h (setopt_rc c CURLOPT_UPLOAD) s1, successfully_added_handles)
               else if setopt_rc c CURLOPT_READFUNCTION \<noteq> CURLE_OK
               then (upload_skip env i h (setopt_rc c CURLOPT_READFUNCTION) s1, successfully_added_handles)
               else if setopt_rc c CURLOPT_READDATA \<noteq> CURLE_OK
               then (upload_skip env i h (setopt_rc c CURLOPT_READDATA) s1, successfully_added_handles)
               else if setopt_rc c CURLOPT_INFILESIZE_LARGE \<noteq> CURLE_OK
               then (upload_skip env i h (setopt_rc c CURLOPT_INFILESIZE_LARGE) s1, successfully_added_handles)
               else
                 (case curl_multi_add_handle c h s1 of (s2, mc) \<Rightarrow>
                    if mc = CURLM_OK
                    then (s2, successfully_added_handles + 1)
                    else (set_easy_handle i None
                            (curl_easy_cleanup (cleanup_steps env h) h
                               (emit (Ev_stderr (Msg_add_handle_failed (i + 1) mc)) s2)),
                          successfully_added_handles))))))"

definition upload_register ::
  "run_env \<Rightarrow> upload_buffer_info_t \<Rightarrow> int \<Rightarrow> engine \<Rightarrow> engine \<times> int" where
  "upload_register env shared_upload_data num_connections s =
     fold (upload_connection env shared_upload_data) [0..<nat num_connections]
       (s\<lparr>stream_contexts := []\<rparr>, 0)"

text \<open>The sum of \<^verbatim>\<open>bytes_sent\<close> over the contexts that still have a handle, accumulated
  in \<^verbatim>\<open>long long\<close>.\<close>

definition sum_bytes_sent :: "upload_stream_context_t list \<Rightarrow> int" where
  "sum_bytes_sent ctxs =
     sint (fold (\<lambda>ctx acc. if easy_handle ctx \<noteq> None then acc + bytes_sent ctx else acc)
             ctxs (0 :: 64 word))"

text \<open>One iteration of the clean-up loop, for the context of one connection. The loop
  below goes over the contexts as they are when it starts: a callback that runs during a
  clean-up can move a cursor, but none writes the field \<^verbatim>\<open>easy_handle\<close>.\<close>

definition upload_cleanup :: "run_env \<Rightarrow> upload_stream_context_t \<Rightarrow> engine \<Rightarrow> engine" where
  "upload_cleanup env ctx s =
     (case easy_handle ctx of
        Some h \<Rightarrow> curl_easy_cleanup (cleanup_steps env h) h s
      | None \<Rightarrow> s)"

text \<open>The part of \<^verbatim>\<open>perform_upload_test\<close> that follows the return of the blocking
  \<^verbatim>\<open>uv_run\<close>.\<close>

definition upload_finish :: "run_env \<Rightarrow> int \<Rightarrow> int \<Rightarrow> engine \<Rightarrow> engine" where
  "upload_finish env num_connections successfully_added_handles s =
     (let actual_test_duration_s = real (unat (end_time_ns env - start_time_ns env)) / 1000000000;
          s1 = uv_run_nowait (nowait_events env)
                 (s\<lparr>test_duration_timer_upload := close_test_timer (test_duration_timer_upload s)\<rparr>);
          total_uploaded_bytes_test_run =
            sum_bytes_sent (take (nat num_connections) (stream_contexts s1));
          speed_mbps_upload =
            (if actual_test_duration_s > 0.001 \<and> total_uploaded_bytes_test_run > 0
             then (real_of_int total_uploaded_bytes_test_run * 8.0) / actual_test_duration_s
                    / (1000.0 * 1000.0)
             else 0.0);
          s2 = emit (Ev_results Upload successfully_added_handles total_uploaded_bytes_test_run
                       actual_test_duration_s speed_mbps_upload) s1;
          s3 = fold (upload_cleanup env) (take (nat num_connections) (stream_contexts s2)) s2
      in s3\<lparr>running_handles := 0\<rparr>)"

definition perform_upload_test :: "run_env \<Rightarrow> string \<Rightarrow> int \<Rightarrow> engine \<Rightarrow> engine option" where
  "perform_upload_test env url num_connections s =
     (let shared_upload_data = generate_upload_data (buffer_malloc_ok env) (10 * 1024 * 1024) in
      if buffer shared_upload_data = None \<or> size_bytes shared_upload_data = 0
      then Some (emit (Ev_stderr Msg_upload_data_failed) s)
      else if num_connections > 10 then Some (emit (Ev_stderr Msg_exceeded_max) s)
      else if timer_init_rc env \<noteq> 0
      then Some (emit (Ev_stderr (Msg_timer_init_failed (timer_init_rc env))) s)
      else
        (case upload_register env shared_upload_data num_connections
                (s\<lparr>test_duration_timer_upload := uv_timer_start uv_timer_init 1 0\<rparr>) of
           (s1, successfully_added_handles) \<Rightarrow>
             if successfully_added_handles = 0
             then Some (uv_run_nowait (nowait_events env)
                          ((emit (Ev_stderr (Msg_no_connections Upload)) s1)
                             \<lparr>test_duration_timer_upload :=
                                close_test_timer (test_duration_timer_upload s1)\<rparr>))
             else
               (case uv_run_default (loop_events env)
                       (s1\<lparr>running_handles := successfully_added_handles\<rparr>) of
                  None \<Rightarrow> None
                | Some s2 \<Rightarrow> Some (upload_finish env num_connections successfully_added_handles s2))))"

section \<open>The state \<^verbatim>\<open>main\<close> sets up\<close>

text \<open>
  After the initialisation in \<^verbatim>\<open>main\<close> the loop pointer is set, the deadline timer is
  initialised and not started, the multi handle has no easy handle, message or socket,
  and nothing was written yet.
\<close>

definition initial_engine :: engine where
  "initial_engine =
     \<lparr>loop = True, running_handles = 0, total_downloaded_bytes = 0,
      timeout_timer = uv_timer_init, test_duration_timer = uv_timer_init,
      test_duration_timer_upload = uv_timer_init,
      multi_handles = [], multi_msgs = [], multi_sockets = Map.empty, polls = Map.empty,
      next_poll = 0, easy_live = [], next_easy = 0, stream_contexts = [], trace = []\<rparr>"

text \<open>A library call in which nothing happens.\<close>

definition idle_pump :: "int \<Rightarrow> lib_pump" where
  "idle_pump still_running = Lib_pump [] still_running CURLM_OK"

section \<open>Observations on the trace\<close>

text \<open>
  The events that mark the course of a test run: the report of a set-up failure, the report
  that no connection was initiated, every call of \<^verbatim>\<open>uv_run\<close>, and the result block.
\<close>

fun is_milestone :: "event \<Rightarrow> bool" where
  "is_milestone (Ev_uv_run m) = True"
| "is_milestone (Ev_results t n b d v) = True"
| "is_milestone (Ev_stderr (Msg_no_connections t)) = True"
| "is_milestone (Ev_stderr Msg_exceeded_max) = True"
| "is_milestone (Ev_stderr (Msg_timer_init_failed rc)) = True"
| "is_milestone (Ev_stderr Msg_upload_data_failed) = True"
| "is_milestone e = False"

definition milestones :: "engine \<Rightarrow> event list" where
  "milestones s = filter is_milestone (trace s)"

text \<open>
  The events that a callback, or the draining of completed transfers, can record: all but
  the milestones and \<^verbatim>\<open>curl_easy_cleanup\<close>, which only a test run itself produces.
\<close>

fun is_callback_event :: "event \<Rightarrow> bool" where
  "is_callback_event (Ev_easy_cleanup h r) = False"
| "is_callback_event e = (\<not> is_milestone e)"

text \<open>\<open>s'\<close> comes after \<open>s\<close> and only callback events were recorded in between.\<close>

definition callbacks_only :: "engine \<Rightarrow> engine \<Rightarrow> bool" where
  "callbacks_only s s' = (\<exists>es. trace s' = trace s @ es \<and> list_all is_callback_event es)"

text \<open>
  \<^verbatim>\<open>curl_easy_init\<close> gives a handle that is not in use: every easy handle that exists or
  is known to the multi handle was given out before.
\<close>

definition handles_fresh :: "engine \<Rightarrow> bool" where
  "handles_fresh s =
     (list_all (\<lambda>h. h < next_easy s) (easy_live s) \<and>
      list_all (\<lambda>h. h < next_easy s) (multi_handles s))"

text \<open>A connection registers when every checked step of its set-up succeeds.\<close>

definition download_ok :: "conn_env \<Rightarrow> bool" where
  "download_ok c =
     (easy_init_ok c \<and> setopt_rc c CURLOPT_URL = CURLE_OK \<and>
      setopt_rc c CURLOPT_WRITEFUNCTION = CURLE_OK \<and> add_rc c = CURLM_OK)"

definition upload_ok :: "conn_env \<Rightarrow> bool" where
  "upload_ok c =
     (easy_init_ok c \<and> setopt_rc c CURLOPT_URL = CURLE_OK \<and>
      setopt_rc c CURLOPT_UPLOAD = CURLE_OK \<and> setopt_rc c CURLOPT_READFUNCTION = CURLE_OK \<and>
      setopt_rc c CURLOPT_READDATA = CURLE_OK \<and> setopt_rc c CURLOPT_INFILESIZE_LARGE = CURLE_OK \<and>
      add_rc c = CURLM_OK)"

text \<open>What a callback leaves alone: the easy handles that exist, the two duration timers
  and the loop pointer; and it registers no handle with the multi handle.\<close>

definition callback_frame :: "engine \<Rightarrow> engine \<Rightarrow> bool" where
  "callback_frame s s' =
     (easy_live s' = easy_live s \<and> next_easy s' = next_easy s \<and>
      test_duration_timer s' = test_duration_timer s \<and>
      test_duration_timer_upload s' = test_duration_timer_upload s \<and>
      loop s' = loop s \<and> length (stream_contexts s') = length (stream_contexts s) \<and>
      map easy_handle (stream_contexts s') = map easy_handle (stream_contexts s) \<and>
      set (multi_handles s') \<subseteq> set (multi_handles s))"

text \<open>The easy handles the stream contexts of an upload run hold.\<close>

definition stream_handles :: "upload_stream_context_t list \<Rightarrow> CURL list" where
  "stream_handles ctxs = concat (map (\<lambda>c. case easy_handle c of None \<Rightarrow> [] | Some h \<Rightarrow> [h]) ctxs)"

text \<open>The number of connections of a run that register with the multi handle.\<close>

definition download_registered :: "run_env \<Rightarrow> int \<Rightarrow> nat" where
  "download_registered env num_connections =
     length (filter (\<lambda>i. download_ok (conn env i)) [0..<nat num_connections])"

definition upload_registered :: "run_env \<Rightarrow> int \<Rightarrow> nat" where
  "upload_registered env num_connections =
     length (filter (\<lambda>i. upload_ok (conn env i)) [0..<nat num_connections])"

text \<open>A timer that is active and has a repeat interval.\<close>

definition repeating :: "uv_timer_t \<Rightarrow> bool" where
  "repeating tm = (timer_active tm \<and> timer_repeat tm \<noteq> 0)"

text \<open>
  The cursor of a stream is within its payload; the cursors of all streams of the run in
  progress are; from one state to a later one no stream changed its payload or moved its
  cursor back; and a step keeps the cursors within their payloads and moves none back.
\<close>

definition cursor_within :: "upload_stream_context_t \<Rightarrow> bool" where
  "cursor_within ctx =
     (case buffer_info ctx of None \<Rightarrow> False | Some info \<Rightarrow> bytes_sent ctx \<le> size_bytes info)"

definition cursors_within :: "engine \<Rightarrow> bool" where
  "cursors_within s = list_all cursor_within (stream_contexts s)"

definition cursors_advance :: "engine \<Rightarrow> engine \<Rightarrow> bool" where
  "cursors_advance s s' =
     list_all2 (\<lambda>c c'. buffer_info c' = buffer_info c \<and> bytes_sent c \<le> bytes_sent c')
       (stream_contexts s) (stream_contexts s')"

definition cursor_step :: "engine \<Rightarrow> engine \<Rightarrow> bool" where
  "cursor_step s s' = (cursors_within s \<longrightarrow> cursors_within s' \<and> cursors_advance s s')"

section \<open>Concrete states and environments\<close>


definition two_done :: engine where
  "two_done = initial_engine\<lparr>running_handles := 2, multi_handles := [0, 1],
       multi_msgs := [CURLMsg CURLMSG_DONE 0 CURLE_OK, CURLMsg CURLMSG_DONE 1 7],
       timeout_timer := uv_timer_start uv_timer_init 500 0\<rparr>"

definition watching :: engine where
  "watching = call_socket_function 0 5 CURL_POLL_IN (Sock_env True 0 0) initial_engine"

definition scenario_b_env :: run_env where
  "scenario_b_env =
     \<lparr>timer_init_rc = 0, buffer_malloc_ok = True, start_time_ns = 0, end_time_ns = 1000000000,
      conn = (\<lambda>i. if i = 1
                   then Conn_env True (\<lambda>opt. if opt = CURLOPT_URL then 3 else CURLE_OK) CURLM_OK []
                   else Conn_env True (\<lambda>opt. CURLE_OK) CURLM_OK
                          (if i = 0 then [Call_timer 1 (idle_pump 0)] else [])),
      loop_events =
        [Test_timer_upload_due,
         Timeout_timer_due
           (Lib_pump [Call_read 0 1 16384, Call_read 2 1 16384,
                      Post_msg (CURLMsg CURLMSG_DONE 0 CURLE_OK),
                      Post_msg (CURLMsg CURLMSG_DONE 2 CURLE_OK),
                      Call_timer (- 1) (idle_pump 0)] 0 CURLM_OK)],
      nowait_events = [], cleanup_steps = (\<lambda>h. [])\<rparr>"

definition no_connection_env :: run_env where
  "no_connection_env =
     \<lparr>timer_init_rc = 0, buffer_malloc_ok = True, start_time_ns = 0, end_time_ns = 1000000000,
      conn = (\<lambda>i. Conn_env False (\<lambda>opt. CURLE_OK) CURLM_OK []),
      loop_events = [], nowait_events = [], cleanup_steps = (\<lambda>h. [])\<rparr>"

definition early_exit_env :: run_env where
  "early_exit_env =
     \<lparr>timer_init_rc = 0, buffer_malloc_ok = True, start_time_ns = 0, end_time_ns = 2000000,
      conn = (\<lambda>i. Conn_env True (\<lambda>opt. CURLE_OK) CURLM_OK
                     (if i = 0 then [Call_timer 1 (idle_pump 0)] else [])),
      loop_events =
        [Test_timer_upload_due,
         Timeout_timer_due
           (Lib_pump [Post_msg (CURLMsg CURLMSG_DONE 0 6), Call_timer 500 (idle_pump 1)]
              1 CURLM_OK)],
      nowait_events = [], cleanup_steps = (\<lambda>h. [])\<rparr>"

definition refused_env :: run_env where
  "refused_env =
     \<lparr>timer_init_rc = 0, buffer_malloc_ok = True, start_time_ns = 0, end_time_ns = 2000000,
      conn = (\<lambda>i. Conn_env True (\<lambda>opt. CURLE_OK) CURLM_OK [Call_timer 0 (Lib_pump [] 0 8)]),
      loop_events = [Test_timer_upload_due],
      nowait_events = [], cleanup_steps = (\<lambda>h. [])\<rparr>"





section \<open>The data-requested callback: amount copied and cursor\<close>

lemma min_word_unat: "unat (min (a::size_t) b) = min (unat a) (unat b)"
  by (simp add: min_def word_le_nat_alt)

lemma cb_valid:
  assumes "buffer_info ctx = Some info" "buffer info = Some buf"
  shows "curl_read_callback dest sz ni (Some ctx) =
     (let k = min (sz * ni) (size_bytes info - bytes_sent ctx) in
      (memcpy dest buf (unat (bytes_sent ctx)) (unat k), Some (ctx\<lparr>bytes_sent := bytes_sent ctx + k\<rparr>), k))"
  using assms
  apply (simp add: curl_read_callback_def Let_def min_def memcpy_def)
  apply (auto simp: word_gt_0 not_less)
  done

lemma cursor_step:
  assumes "bytes_sent ctx \<le> L"
  shows "unat (bytes_sent ctx + min n (L - bytes_sent ctx)) = unat (bytes_sent ctx) + min (unat n) (unat L - unat (bytes_sent ctx))"
proof -
  have 1: "unat (L - bytes_sent ctx) = unat L - unat (bytes_sent ctx)"
    using assms by (simp add: unat_sub)
  have 2: "unat (bytes_sent ctx) \<le> unat L" using assms by (simp add: word_le_nat_alt)
  have 3: "unat (min n (L - bytes_sent ctx)) = min (unat n) (unat L - unat (bytes_sent ctx))"
    by (simp add: min_word_unat 1)
  have "unat (bytes_sent ctx) + unat (min n (L - bytes_sent ctx)) < 2 ^ 64"
    using 2 3 unsigned_less[of L, where 'a=nat] by (simp add: min_def split: if_splits)
  then show ?thesis using 3 by (simp add: unat_add_lem[THEN iffD1])
qed

lemma read_once_valid:
  assumes "buffer_info ctx = Some info" "buffer info = Some buf"
  shows "read_once (sz, ni) ctx =
     (ctx\<lparr>bytes_sent := bytes_sent ctx + min (sz * ni) (size_bytes info - bytes_sent ctx)\<rparr>,
      min (sz * ni) (size_bytes info - bytes_sent ctx))"
  using assms by (simp add: read_once_def cb_valid Let_def)

lemma read_once_info: "buffer_info (fst (read_once rq ctx)) = buffer_info ctx"
  by (cases rq) (auto simp: read_once_def curl_read_callback_def Let_def split: option.splits)



lemma read_calls_append:
  "read_calls (rqs @ [rq]) ctx = fst (read_once rq (read_calls rqs ctx))"
  by (induction rqs arbitrary: ctx) auto

lemma read_calls_info: "buffer_info (read_calls rqs ctx) = buffer_info ctx"
  by (induction rqs arbitrary: ctx) (auto simp: read_once_info)

lemma min_step: "min x L + min n (L - min x L) = min (x + n) (L::nat)"
  by arith

lemma read_calls_replicate_cursor:
  assumes "buffer_info ctx = Some info" "buffer info = Some buf" "bytes_sent ctx \<le> size_bytes info"
  shows "unat (bytes_sent (read_calls (replicate m (sz, ni)) ctx)) =
         min (unat (bytes_sent ctx) + m * unat (sz * ni)) (unat (size_bytes info))"
proof (induction m)
  case 0
  then show ?case using assms(3) by (simp add: word_le_nat_alt)
next
  case (Suc m)
  let ?c = "read_calls (replicate m (sz, ni)) ctx"
  have i: "buffer_info ?c = Some info" using assms(1) by (simp add: read_calls_info)
  have le: "unat (bytes_sent ?c) \<le> unat (size_bytes info)" using Suc by simp
  then have le': "bytes_sent ?c \<le> size_bytes info" by (simp add: word_le_nat_alt)
  have "replicate (Suc m) (sz, ni) = replicate m (sz, ni) @ [(sz, ni)]"
    by (simp add: replicate_append_same)
  then have "read_calls (replicate (Suc m) (sz, ni)) ctx = fst (read_once (sz, ni) ?c)"
    by (simp only: read_calls_append)
  also have "\<dots> = ?c\<lparr>bytes_sent := bytes_sent ?c + min (sz * ni) (size_bytes info - bytes_sent ?c)\<rparr>"
    by (simp add: read_once_valid [OF i assms(2)])
  finally have "unat (bytes_sent (read_calls (replicate (Suc m) (sz, ni)) ctx)) =
      unat (bytes_sent ?c) + min (unat (sz * ni)) (unat (size_bytes info) - unat (bytes_sent ?c))"
    using cursor_step [OF le', of "sz * ni"] by simp
  also have "\<dots> = min (unat (bytes_sent ctx) + Suc m * unat (sz * ni)) (unat (size_bytes info))"
    unfolding Suc min_step by (simp add: add.assoc add.commute)
  finally show ?case .
qed

text \<open>
  Claim C2. With a valid stream context, a request of \<open>n = size * nitems\<close> bytes (the
  \<^verbatim>\<open>size_t\<close> product the code computes) and a cursor \<open>c\<close> that does not exceed the
  buffer length, the callback returns \<open>k = min n (buffer_length - c)\<close> (no wrap-around is
  involved: the same holds of the numbers the words stand for), sets the cursor to
  \<open>c + k\<close>, and changes exactly the first \<open>k\<close> bytes of the destination, which become
  the \<open>k\<close> bytes of the payload at offset \<open>c\<close>. For a payload of 10,485,760 bytes, a
  cursor starting at 0 and requests of 16,384 bytes, the cursor after \<open>m\<close> invocations is
  \<open>min (m * 16384) 10485760\<close>, so it is at the end after 640 invocations and not before,
  and every invocation made after at least 640 returns 0.
\<close>

theorem curl_read_callback_copies_min:
  assumes "buffer_info ctx = Some info" and "buffer info = Some buf"
    and "length buf = unat (size_bytes info)" and "bytes_sent ctx \<le> size_bytes info"
  shows "let k = min (sz * ni) (size_bytes info - bytes_sent ctx);
             r = curl_read_callback dest sz ni (Some ctx)
         in unat k = min (unat (sz * ni)) (length buf - unat (bytes_sent ctx)) \<and>
            snd (snd r) = k \<and>
            fst (snd r) = Some (ctx\<lparr>bytes_sent := bytes_sent ctx + k\<rparr>) \<and>
            unat (bytes_sent ctx + k) = unat (bytes_sent ctx) + unat k \<and>
            take (unat k) (fst r) = take (unat k) (drop (unat (bytes_sent ctx)) buf) \<and>
            length (take (unat k) (drop (unat (bytes_sent ctx)) buf)) = unat k \<and>
            drop (unat k) (fst r) = drop (unat k) dest \<and>
            (size_bytes info = 10485760 \<and> bytes_sent ctx = 0 \<and> sz * ni = 16384 \<longrightarrow>
               (\<forall>m. unat (bytes_sent (read_calls (replicate m (sz, ni)) ctx)) = min (m * 16384) 10485760) \<and>
               (\<forall>m\<ge>640. snd (read_once (sz, ni) (read_calls (replicate m (sz, ni)) ctx)) = 0))"
proof -
  let ?c = "bytes_sent ctx" and ?L = "size_bytes info"
  let ?k = "min (sz * ni) (?L - ?c)"
  have sub: "unat (?L - ?c) = unat ?L - unat ?c"
    using assms(4) by (simp add: unat_sub)
  have k: "unat ?k = min (unat (sz * ni)) (length buf - unat ?c)"
    by (simp add: min_word_unat sub assms(3))
  have adv: "unat (?c + ?k) = unat ?c + unat ?k"
    using cursor_step [OF assms(4), of "sz * ni"] by (simp add: min_word_unat sub)
  have len: "length (take (unat ?k) (drop (unat ?c) buf)) = unat ?k"
    using k by simp
  have r: "curl_read_callback dest sz ni (Some ctx) =
      (memcpy dest buf (unat ?c) (unat ?k), Some (ctx\<lparr>bytes_sent := ?c + ?k\<rparr>), ?k)"
    using cb_valid [OF assms(1,2)] by (simp add: Let_def)
  have tk: "take (unat ?k) (memcpy dest buf (unat ?c) (unat ?k)) = take (unat ?k) (drop (unat ?c) buf)"
    using len by (simp add: memcpy_def)
  have dr: "drop (unat ?k) (memcpy dest buf (unat ?c) (unat ?k)) = drop (unat ?k) dest"
    using len by (simp add: memcpy_def)
  have scen: "(\<forall>m. unat (bytes_sent (read_calls (replicate m (sz, ni)) ctx)) = min (m * 16384) 10485760) \<and>
       (\<forall>m\<ge>640. snd (read_once (sz, ni) (read_calls (replicate m (sz, ni)) ctx)) = 0)"
    if h: "?L = 10485760" "?c = 0" "sz * ni = 16384"
  proof -
    have cur: "unat (bytes_sent (read_calls (replicate m (sz, ni)) ctx)) = min (m * 16384) 10485760" for m
      using read_calls_replicate_cursor [OF assms(1,2,4), of m sz ni] h by simp
    have "snd (read_once (sz, ni) (read_calls (replicate m (sz, ni)) ctx)) = 0" if "640 \<le> m" for m
    proof -
      let ?d = "read_calls (replicate m (sz, ni)) ctx"
      have "unat (bytes_sent ?d) = 10485760" using cur [of m] that by simp
      then have "bytes_sent ?d = ?L" using h(1) by (simp add: word_unat_eq_iff)
      moreover have "buffer_info ?d = Some info" using assms(1) by (simp add: read_calls_info)
      ultimately show ?thesis by (simp add: read_once_valid [OF _ assms(2)])
    qed
    with cur show ?thesis by blast
  qed
  show ?thesis
    unfolding Let_def r using k adv tk len dr scen by simp
qed

theorem curl_read_callback_copies_min_witness:
  "snd (snd (curl_read_callback (replicate 16384 0) 1 16384
        (Some (fresh_stream (generate_upload_data True 10485760) (Some 1))))) = 16384 \<and>
   unat (bytes_sent (read_calls (replicate 639 (1, 16384))
        (fresh_stream (generate_upload_data True 10485760) (Some 1)))) = 10469376 \<and>
   unat (bytes_sent (read_calls (replicate 640 (1, 16384))
        (fresh_stream (generate_upload_data True 10485760) (Some 1)))) = 10485760 \<and>
   snd (read_once (1, 16384) (read_calls (replicate 640 (1, 16384))
        (fresh_stream (generate_upload_data True 10485760) (Some 1)))) = 0"
proof -
  let ?info = "generate_upload_data True 10485760"
  let ?ctx = "fresh_stream ?info (Some 1)"
  have 1: "buffer_info ?ctx = Some ?info" by (simp add: fresh_stream_def)
  have 2: "buffer ?info = Some (replicate 10485760 0)" by (simp add: generate_upload_data_def)
  have 3: "length (replicate 10485760 (0::byte)) = unat (size_bytes ?info)"
    by (simp add: generate_upload_data_def)
  have 4: "bytes_sent ?ctx \<le> size_bytes ?info" by (simp add: fresh_stream_def)
  have 5: "size_bytes ?info = 10485760 \<and> bytes_sent ?ctx = 0 \<and> (1::size_t) * 16384 = 16384"
    by (simp add: fresh_stream_def generate_upload_data_def)
  note t = curl_read_callback_copies_min [OF 1 2 3 4, of 1 16384 "replicate 16384 0", unfolded Let_def]
  have a: "snd (snd (curl_read_callback (replicate 16384 0) 1 16384 (Some ?ctx))) = 16384"
    using t 5 by (simp add: fresh_stream_def generate_upload_data_def)
  have b: "unat (bytes_sent (read_calls (replicate m (1, 16384)) ?ctx)) = min (m * 16384) 10485760" for m
    using t 5 by blast
  have c: "snd (read_once (1, 16384) (read_calls (replicate 640 (1, 16384)) ?ctx)) = 0"
    using t 5 by (metis order_refl)
  show ?thesis using a b [of 640] b [of 639] c by simp
qed
section \<open>Draining completed transfers\<close>

lemma loop_empty: "multi_msgs s = [] \<Longrightarrow> check_multi_info_loop s n = (s, n)"
  by (subst check_multi_info_loop.simps) (simp add: curl_multi_info_read_def)

lemma loop_drains: "multi_msgs (fst (check_multi_info_loop s n)) = []"
proof (induction s n rule: check_multi_info_loop.induct)
  case (1 s n)
  show ?case
  proof (cases "multi_msgs s")
    case Nil
    then show ?thesis by (simp add: loop_empty)
  next
    case (Cons m ms)
    then have r: "curl_multi_info_read s = (Some m, s\<lparr>multi_msgs := ms\<rparr>)"
      by (simp add: curl_multi_info_read_def)
    show ?thesis
    proof (cases "msg m = CURLMSG_DONE")
      case True
      with 1(1) [OF r [symmetric] refl True] r show ?thesis
        by (subst check_multi_info_loop.simps) simp
    next
      case False
      with 1(2) [OF r [symmetric] refl False] r show ?thesis
        by (subst check_multi_info_loop.simps) simp
    qed
  qed
qed

lemma check_multi_info_msgs: "multi_msgs (check_multi_info s) = []"
  using loop_drains [of s "running_handles s"]
  by (cases "check_multi_info_loop s (running_handles s)") (simp add: check_multi_info_def Let_def)

lemma check_multi_info_timer:
  "running_handles (check_multi_info s) = 0 \<Longrightarrow> \<not> timer_active (timeout_timer (check_multi_info s))"
  by (cases "check_multi_info_loop s (running_handles s)")
     (auto simp: check_multi_info_def Let_def uv_timer_stop_def split: if_splits)

lemma check_multi_info_fixed:
  assumes "multi_msgs s = []" "running_handles s = 0 \<longrightarrow> \<not> timer_active (timeout_timer s)"
  shows "check_multi_info s = s"
  using assms by (auto simp: check_multi_info_def loop_empty Let_def)

text \<open>
  Claim C4. In every engine state, draining twice in a row gives the state that draining
  once gives: in particular the second call records nothing (no outcome is reported
  twice), removes no handle from the multi handle and leaves the count of running
  transfers as it is.
\<close>

theorem check_multi_info_idempotent:
  "check_multi_info (check_multi_info s) = check_multi_info s \<and>
   trace (check_multi_info (check_multi_info s)) = trace (check_multi_info s) \<and>
   multi_handles (check_multi_info (check_multi_info s)) = multi_handles (check_multi_info s) \<and>
   running_handles (check_multi_info (check_multi_info s)) = running_handles (check_multi_info s)"
proof -
  have "check_multi_info (check_multi_info s) = check_multi_info s"
    by (rule check_multi_info_fixed) (simp_all add: check_multi_info_msgs check_multi_info_timer)
  then show ?thesis by simp
qed

lemma loop_count:
  "snd (check_multi_info_loop s n) =
     n - int (length (filter (\<lambda>m. msg m = CURLMSG_DONE) (multi_msgs s)))"
proof (induction s n rule: check_multi_info_loop.induct)
  case (1 s n)
  show ?case
  proof (cases "multi_msgs s")
    case Nil
    then show ?thesis by (simp add: loop_empty)
  next
    case (Cons m ms)
    then have r: "curl_multi_info_read s = (Some m, s\<lparr>multi_msgs := ms\<rparr>)"
      by (simp add: curl_multi_info_read_def)
    show ?thesis
    proof (cases "msg m = CURLMSG_DONE")
      case True
      with 1(1) [OF r [symmetric] refl True] r Cons show ?thesis
        by (subst check_multi_info_loop.simps)
           (simp add: curl_multi_remove_handle_def emit_def)
    next
      case False
      with 1(2) [OF r [symmetric] refl False] r Cons show ?thesis
        by (subst check_multi_info_loop.simps) simp
    qed
  qed
qed

lemma check_multi_info_count:
  "running_handles (check_multi_info s) =
     running_handles s - int (length (filter (\<lambda>m. msg m = CURLMSG_DONE) (multi_msgs s)))"
  using loop_count [of s "running_handles s"]
  by (cases "check_multi_info_loop s (running_handles s)") (simp add: check_multi_info_def Let_def)

section \<open>What callbacks record and what they leave alone\<close>

lemma callbacks_only_refl [simp]: "callbacks_only s s"
  by (simp add: callbacks_only_def)

lemma callbacks_only_trans: "callbacks_only s t \<Longrightarrow> callbacks_only t u \<Longrightarrow> callbacks_only s u"
  by (auto simp: callbacks_only_def)

lemma callbacks_only_trace: "trace t = trace s \<Longrightarrow> callbacks_only s t"
  by (simp add: callbacks_only_def)

lemma callbacks_only_emit: "is_callback_event e \<Longrightarrow> callbacks_only s (emit e s)"
  by (simp add: callbacks_only_def emit_def)

lemma callbacks_only_left: "trace s0 = trace s \<Longrightarrow> callbacks_only s0 t \<Longrightarrow> callbacks_only s t"
  by (simp add: callbacks_only_def)

lemma callbacks_only_right: "trace t' = trace t \<Longrightarrow> callbacks_only s t \<Longrightarrow> callbacks_only s t'"
  by (simp add: callbacks_only_def)

lemma loop_callbacks_only: "callbacks_only s (fst (check_multi_info_loop s n))"
proof (induction s n rule: check_multi_info_loop.induct)
  case (1 s n)
  show ?case
  proof (cases "multi_msgs s")
    case Nil
    then show ?thesis by (simp add: loop_empty)
  next
    case (Cons m ms)
    then have r: "curl_multi_info_read s = (Some m, s\<lparr>multi_msgs := ms\<rparr>)"
      by (simp add: curl_multi_info_read_def)
    show ?thesis
    proof (cases "msg m = CURLMSG_DONE")
      case True
      let ?t = "curl_multi_remove_handle (msg_easy_handle m)
                    (if msg_result m \<noteq> CURLE_OK
                     then emit (Ev_stderr (Msg_transfer_failed (msg_easy_handle m) (msg_result m))) (s\<lparr>multi_msgs := ms\<rparr>)
                     else s\<lparr>multi_msgs := ms\<rparr>)"
      have "callbacks_only s ?t"
        by (simp add: callbacks_only_def curl_multi_remove_handle_def emit_def)
      moreover have "callbacks_only ?t (fst (check_multi_info_loop ?t (n - 1)))"
        using 1(1) [OF r [symmetric] refl True] .
      moreover have "check_multi_info_loop s n = check_multi_info_loop ?t (n - 1)"
        using r True by (subst check_multi_info_loop.simps) simp
      ultimately show ?thesis by (auto intro: callbacks_only_trans)
    next
      case False
      have "callbacks_only s (s\<lparr>multi_msgs := ms\<rparr>)" by (simp add: callbacks_only_def)
      moreover have "callbacks_only (s\<lparr>multi_msgs := ms\<rparr>) (fst (check_multi_info_loop (s\<lparr>multi_msgs := ms\<rparr>) n))"
        using 1(2) [OF r [symmetric] refl False] .
      moreover have "check_multi_info_loop s n = check_multi_info_loop (s\<lparr>multi_msgs := ms\<rparr>) n"
        using r False by (subst check_multi_info_loop.simps) simp
      ultimately show ?thesis by (auto intro: callbacks_only_trans)
    qed
  qed
qed

lemma check_multi_info_callbacks_only: "callbacks_only s (check_multi_info s)"
proof -
  obtain s' n where l: "check_multi_info_loop s (running_handles s) = (s', n)"
    by (cases "check_multi_info_loop s (running_handles s)")
  then have "callbacks_only s s'" using loop_callbacks_only [of s "running_handles s"] by simp
  moreover have "trace (check_multi_info s) = trace s'"
    by (simp add: check_multi_info_def l Let_def)
  ultimately show ?thesis by (rule callbacks_only_right [rotated])
qed

lemma trace_uv_poll_stop [simp]: "trace (uv_poll_stop h s) = trace s"
  by (simp add: uv_poll_stop_def split: option.splits)

lemma trace_uv_poll_start [simp]: "trace (uv_poll_start h e rc s) = trace s"
  by (simp add: uv_poll_start_def split: option.splits)

lemma trace_uv_close_poll [simp]: "trace (uv_close_poll h s) = trace s"
  by (simp add: uv_close_poll_def split: option.splits)

lemma trace_curl_multi_assign [simp]: "trace (fst (curl_multi_assign fd p s)) = trace s"
  by (simp add: curl_multi_assign_def)

lemma new_poll_handle_callbacks_only:
  "new_poll_handle fd env s = Inl (t, rc) \<Longrightarrow> callbacks_only s t"
  "new_poll_handle fd env s = Inr (h, t) \<Longrightarrow> callbacks_only s t"
  by (auto simp: new_poll_handle_def Let_def callbacks_only_def emit_def curl_multi_assign_def
           split: if_splits prod.splits)

lemma socket_action_callbacks_only:
  "callbacks_only s (fst (curl_perform_socket_action easy fd action socketp env s))"
proof (cases socketp)
  case None
  show ?thesis
  proof (cases "new_poll_handle fd env s")
    case (Inl a)
    then show ?thesis using None new_poll_handle_callbacks_only(1) [of fd env s "fst a" "snd a"]
      by (simp add: curl_perform_socket_action_def)
  next
    case (Inr b)
    obtain h t where b: "b = (h, t)" by (cases b)
    have "callbacks_only s t" using new_poll_handle_callbacks_only(2) Inr b by simp
    then show ?thesis using None Inr b
      by (auto simp: curl_perform_socket_action_def Let_def callbacks_only_def emit_def)
  qed
next
  case (Some h)
  then show ?thesis
    by (auto simp: curl_perform_socket_action_def Let_def callbacks_only_def emit_def)
qed

lemma call_socket_function_callbacks_only:
  "callbacks_only s (call_socket_function easy fd action env s)"
proof -
  define s1 where "s1 = (if action \<noteq> CURL_POLL_REMOVE \<and> fd \<notin> dom (multi_sockets s)
                then s\<lparr>multi_sockets := (multi_sockets s)(fd \<mapsto> None)\<rparr> else s)"
  define s2 where "s2 = fst (curl_perform_socket_action easy fd action (socketp_of s1 fd) env s1)"
  have t1: "trace s1 = trace s" by (simp add: s1_def)
  have "callbacks_only s1 s2" unfolding s2_def by (rule socket_action_callbacks_only)
  then have a: "callbacks_only s s2" by (rule callbacks_only_left [OF t1])
  have "call_socket_function easy fd action env s =
        (if action = CURL_POLL_REMOVE then s2\<lparr>multi_sockets := (multi_sockets s2)(fd := None)\<rparr> else s2)"
    unfolding call_socket_function_def Let_def s2_def s1_def ..
  then have "trace (call_socket_function easy fd action env s) = trace s2"
    by simp
  then show ?thesis using a by (rule callbacks_only_right)
qed

lemma call_read_function_trace [simp]: "trace (call_read_function i sz ni s) = trace s"
  by (simp add: call_read_function_def)

lemma pump_callbacks_only:
  "callbacks_only s (fst (curl_multi_socket_action p fd flags s))"
  "callbacks_only s (run_lib_steps xs s)"
  "callbacks_only s (run_lib_step x s)"
  "callbacks_only s (fst (handle_curl_timeout p t s))"
proof (induction p fd flags s and xs s and x s and p t s
       rule: curl_multi_socket_action_run_lib_steps_run_lib_step_handle_curl_timeout.induct)
  case (1 steps still_running rc sockfd flags s)
  have "callbacks_only s (emit (Ev_socket_action sockfd flags) s)"
    by (simp add: callbacks_only_emit)
  with 1 show ?case by (auto intro: callbacks_only_trans)
next
  case (2 s)
  then show ?case by simp
next
  case (3 x xs s)
  then show ?case by (auto intro: callbacks_only_trans)
next
  case (4 easy sockfd action env s)
  then show ?case by (simp add: call_socket_function_callbacks_only)
next
  case (5 timeout_ms reentry s)
  then show ?case by simp
next
  case (6 sz nmemb s)
  then show ?case by (simp add: curl_write_callback_def Let_def callbacks_only_def)
next
  case (7 i sz nitems s)
  then show ?case by (simp add: callbacks_only_def)
next
  case (8 m s)
  then show ?case by (simp add: callbacks_only_def)
next
  case (9 reentry timeout_ms s)
  show ?case
  proof (cases "timeout_ms = 0")
    case True
    obtain s1 n mc where p: "curl_multi_socket_action reentry CURL_SOCKET_TIMEOUT 0 s = (s1, n, mc)"
      by (cases "curl_multi_socket_action reentry CURL_SOCKET_TIMEOUT 0 s")
    let ?s2 = "(if mc \<noteq> CURLM_OK then emit (Ev_stderr (Msg_socket_action_failed mc)) s1 else s1)\<lparr>running_handles := n\<rparr>"
    have "callbacks_only s s1" using 9 True p by simp
    moreover have "callbacks_only s1 ?s2" by (simp add: callbacks_only_def emit_def)
    moreover have "callbacks_only ?s2 (check_multi_info ?s2)" by (rule check_multi_info_callbacks_only)
    ultimately have "callbacks_only s (check_multi_info ?s2)" by (blast intro: callbacks_only_trans)
    then show ?thesis using True p by simp
  next
    case False
    then show ?thesis by (simp add: callbacks_only_def)
  qed
qed

section \<open>The deadline callback and the socket callback\<close>

lemma pump_trace_head:
  "\<exists>es. trace (fst (curl_multi_socket_action p fd flags s)) = trace s @ Ev_socket_action fd flags # es"
proof (cases p)
  case (Lib_pump steps n rc)
  have "callbacks_only (emit (Ev_socket_action fd flags) s)
          (run_lib_steps steps (emit (Ev_socket_action fd flags) s))"
    by (rule pump_callbacks_only)
  then show ?thesis using Lib_pump by (auto simp: callbacks_only_def emit_def)
qed

text \<open>
  Claim C1. For every invocation of the timer callback with timeout \<open>t\<close>, in every state and
  whatever the library does when called back. If \<open>t < 0\<close>, the deadline timer is stopped
  and nothing else changes. If \<open>t = 0\<close>, the callback calls
  \<^verbatim>\<open>curl_multi_socket_action\<close> for \<^verbatim>\<open>CURL_SOCKET_TIMEOUT\<close> (the call is the next event of
  the trace), stores the count it reports and drains the completed transfers, all before
  it returns. If \<open>t > 0\<close> (the timer being an open handle, as it is from its
  initialisation in \<^verbatim>\<open>main\<close> until the multi handle is destroyed), the timer becomes
  active with delay \<open>t\<close> and no repeat (when it expires it is not active any more),
  whatever it was scheduled for before, and nothing else changes: the trace shows no call
  of the library. The callback returns 0.
\<close>

theorem handle_curl_timeout_cases:
  "(timeout_ms < 0 \<longrightarrow>
      handle_curl_timeout reentry timeout_ms s =
        (s\<lparr>timeout_timer := (timeout_timer s)\<lparr>timer_active := False\<rparr>\<rparr>, 0)) \<and>
   (timeout_ms = 0 \<longrightarrow>
      (\<exists>s1 n mc es.
         curl_multi_socket_action reentry CURL_SOCKET_TIMEOUT 0 s = (s1, n, mc) \<and>
         trace s1 = trace s @ Ev_socket_action CURL_SOCKET_TIMEOUT 0 # es \<and>
         handle_curl_timeout reentry timeout_ms s =
           (check_multi_info
              ((if mc \<noteq> CURLM_OK then emit (Ev_stderr (Msg_socket_action_failed mc)) s1 else s1)
                 \<lparr>running_handles := n\<rparr>), 0))) \<and>
   (timeout_ms > 0 \<and> \<not> timer_closing (timeout_timer s) \<longrightarrow>
      handle_curl_timeout reentry timeout_ms s =
        (s\<lparr>timeout_timer := \<lparr>timer_active = True, timer_timeout = timeout_ms,
                               timer_repeat = 0, timer_closing = False\<rparr>\<rparr>, 0) \<and>
      \<not> timer_active (timer_expire (timeout_timer (fst (handle_curl_timeout reentry timeout_ms s)))))"
proof (intro conjI impI)
  assume "timeout_ms < 0"
  then show "handle_curl_timeout reentry timeout_ms s =
        (s\<lparr>timeout_timer := (timeout_timer s)\<lparr>timer_active := False\<rparr>\<rparr>, 0)"
    by (simp add: uv_timer_stop_def)
next
  assume z: "timeout_ms = 0"
  obtain s1 n mc where p: "curl_multi_socket_action reentry CURL_SOCKET_TIMEOUT 0 s = (s1, n, mc)"
    by (cases "curl_multi_socket_action reentry CURL_SOCKET_TIMEOUT 0 s")
  obtain es where "trace s1 = trace s @ Ev_socket_action CURL_SOCKET_TIMEOUT 0 # es"
    using pump_trace_head [of reentry CURL_SOCKET_TIMEOUT 0 s] p by auto
  then show "\<exists>s1 n mc es.
         curl_multi_socket_action reentry CURL_SOCKET_TIMEOUT 0 s = (s1, n, mc) \<and>
         trace s1 = trace s @ Ev_socket_action CURL_SOCKET_TIMEOUT 0 # es \<and>
         handle_curl_timeout reentry timeout_ms s =
           (check_multi_info
              ((if mc \<noteq> CURLM_OK then emit (Ev_stderr (Msg_socket_action_failed mc)) s1 else s1)
                 \<lparr>running_handles := n\<rparr>), 0)"
    using p z by (intro exI [of _ s1] exI [of _ n] exI [of _ mc] exI [of _ es]) simp
next
  assume a: "timeout_ms > 0 \<and> \<not> timer_closing (timeout_timer s)"
  then show "handle_curl_timeout reentry timeout_ms s =
        (s\<lparr>timeout_timer := \<lparr>timer_active = True, timer_timeout = timeout_ms,
                               timer_repeat = 0, timer_closing = False\<rparr>\<rparr>, 0)"
    by (simp add: uv_timer_start_def)
  from a show "\<not> timer_active (timer_expire (timeout_timer (fst (handle_curl_timeout reentry timeout_ms s))))"
    by (simp add: uv_timer_start_def timer_expire_def)
qed

lemmas eval_engine =
  initial_engine_def check_multi_info_def check_multi_info_loop.simps curl_multi_info_read_def
  curl_multi_remove_handle_def emit_def uv_timer_start_def uv_timer_init_def uv_timer_stop_def
  idle_pump_def

theorem handle_curl_timeout_cases_witness:
  "handle_curl_timeout (idle_pump 0) (- 1) (initial_engine\<lparr>timeout_timer := uv_timer_start uv_timer_init 250 0\<rparr>)
     = (initial_engine\<lparr>timeout_timer := (uv_timer_start uv_timer_init 250 0)\<lparr>timer_active := False\<rparr>\<rparr>, 0) \<and>
   trace (fst (handle_curl_timeout
                 (Lib_pump [Post_msg (CURLMsg CURLMSG_DONE 0 CURLE_OK)] 0 CURLM_OK) 0
                 (initial_engine\<lparr>multi_handles := [0], running_handles := 1\<rparr>)))
     = [Ev_socket_action CURL_SOCKET_TIMEOUT 0, Ev_multi_remove 0] \<and>
   handle_curl_timeout (idle_pump 0) 40 (initial_engine\<lparr>timeout_timer := uv_timer_start uv_timer_init 250 0\<rparr>)
     = (initial_engine\<lparr>timeout_timer := uv_timer_start uv_timer_init 40 0\<rparr>, 0)"
proof -
  let ?armed = "initial_engine\<lparr>timeout_timer := uv_timer_start uv_timer_init 250 0\<rparr>"
  let ?busy = "initial_engine\<lparr>multi_handles := [0], running_handles := 1\<rparr>"
  let ?done = "Lib_pump [Post_msg (CURLMsg CURLMSG_DONE 0 CURLE_OK)] 0 CURLM_OK"
  have a: "handle_curl_timeout (idle_pump 0) (- 1) ?armed
     = (initial_engine\<lparr>timeout_timer := (uv_timer_start uv_timer_init 250 0)\<lparr>timer_active := False\<rparr>\<rparr>, 0)"
    using handle_curl_timeout_cases [of "- 1" "idle_pump 0" ?armed] by simp
  have c: "handle_curl_timeout (idle_pump 0) 40 ?armed
     = (initial_engine\<lparr>timeout_timer := uv_timer_start uv_timer_init 40 0\<rparr>, 0)"
    using handle_curl_timeout_cases [of 40 "idle_pump 0" ?armed]
    by (simp add: uv_timer_start_def uv_timer_init_def initial_engine_def)
  have b: "trace (fst (handle_curl_timeout ?done 0 ?busy))
     = [Ev_socket_action CURL_SOCKET_TIMEOUT 0, Ev_multi_remove 0]"
    by (simp add: eval_engine)
  show ?thesis using a b c by simp
qed

lemma backref_cleared: "socketp_of (fst (curl_multi_assign fd None s)) fd = None"
  by (auto simp: curl_multi_assign_def socketp_of_def split: option.splits)

text \<open>
  Claim C5. For every invocation of the socket callback for a descriptor that has a
  watcher \<open>h\<close> (passed as \<^verbatim>\<open>socketp\<close>). With \<^verbatim>\<open>CURL_POLL_REMOVE\<close>: the watcher stops
  polling and is closed with \<^verbatim>\<open>free_poll_handle\<close> as its close callback, so that the
  reactor frees it when it runs the close callbacks, and the pointer the library holds
  for the descriptor is cleared. With an action that asks for neither reading nor writing
  (\<^verbatim>\<open>CURL_POLL_NONE\<close>): the watcher stops polling and nothing else changes; it is not
  closed, the pointer stays, and a later request to watch the descriptor starts the same
  watcher again.
\<close>

theorem socket_action_remove_and_none:
  "(socketp = Some h \<and> polls s h = Some p \<longrightarrow>
      (let r = curl_perform_socket_action easy sockfd CURL_POLL_REMOVE socketp env s
       in snd r = CURL_SOCKET_OK \<and>
          polls (fst r) h = Some (p\<lparr>poll_events := 0, poll_closing := True\<rparr>) \<and>
          polls (uv_run_closing (fst r)) h = None \<and>
          socketp_of (fst r) sockfd = None)) \<and>
   (socketp = Some h \<and> polls s h = Some p \<and>
    action \<notin> {CURL_POLL_IN, CURL_POLL_OUT, CURL_POLL_INOUT, CURL_POLL_REMOVE} \<longrightarrow>
      (let r = curl_perform_socket_action easy sockfd action socketp env s
       in snd r = CURL_SOCKET_OK \<and>
          fst r = s\<lparr>polls := (polls s)(h \<mapsto> p\<lparr>poll_events := 0\<rparr>)\<rparr> \<and>
          poll_closing (the (polls (fst r) h)) = poll_closing p \<and>
          multi_sockets (fst r) = multi_sockets s \<and>
          (start_err env' = 0 \<longrightarrow>
             polls (fst (curl_perform_socket_action easy sockfd CURL_POLL_IN socketp env' (fst r))) h
               = Some (p\<lparr>poll_events := UV_READABLE\<rparr>))))"
  by (auto simp: curl_perform_socket_action_def Let_def uv_poll_stop_def uv_close_poll_def
        uv_poll_start_def uv_run_closing_def curl_multi_assign_def socketp_of_def)

lemma callback_frame_refl [simp]: "callback_frame s s"
  by (simp add: callback_frame_def)

lemma callback_frame_trans: "callback_frame s t \<Longrightarrow> callback_frame t u \<Longrightarrow> callback_frame s u"
  by (auto simp: callback_frame_def)

lemma loop_frame: "callback_frame s (fst (check_multi_info_loop s n))"
proof (induction s n rule: check_multi_info_loop.induct)
  case (1 s n)
  show ?case
  proof (cases "multi_msgs s")
    case Nil
    then show ?thesis by (simp add: loop_empty)
  next
    case (Cons m ms)
    then have r: "curl_multi_info_read s = (Some m, s\<lparr>multi_msgs := ms\<rparr>)"
      by (simp add: curl_multi_info_read_def)
    show ?thesis
    proof (cases "msg m = CURLMSG_DONE")
      case True
      let ?t = "curl_multi_remove_handle (msg_easy_handle m)
                    (if msg_result m \<noteq> CURLE_OK
                     then emit (Ev_stderr (Msg_transfer_failed (msg_easy_handle m) (msg_result m))) (s\<lparr>multi_msgs := ms\<rparr>)
                     else s\<lparr>multi_msgs := ms\<rparr>)"
      have "callback_frame s ?t"
        by (auto simp: callback_frame_def curl_multi_remove_handle_def emit_def)
      moreover have "callback_frame ?t (fst (check_multi_info_loop ?t (n - 1)))"
        using 1(1) [OF r [symmetric] refl True] .
      moreover have "check_multi_info_loop s n = check_multi_info_loop ?t (n - 1)"
        using r True by (subst check_multi_info_loop.simps) simp
      ultimately show ?thesis by (auto intro: callback_frame_trans)
    next
      case False
      have "callback_frame s (s\<lparr>multi_msgs := ms\<rparr>)" by (simp add: callback_frame_def)
      moreover have "callback_frame (s\<lparr>multi_msgs := ms\<rparr>) (fst (check_multi_info_loop (s\<lparr>multi_msgs := ms\<rparr>) n))"
        using 1(2) [OF r [symmetric] refl False] .
      moreover have "check_multi_info_loop s n = check_multi_info_loop (s\<lparr>multi_msgs := ms\<rparr>) n"
        using r False by (subst check_multi_info_loop.simps) simp
      ultimately show ?thesis by (auto intro: callback_frame_trans)
    qed
  qed
qed

lemma check_multi_info_frame: "callback_frame s (check_multi_info s)"
proof -
  obtain s' n where l: "check_multi_info_loop s (running_handles s) = (s', n)"
    by (cases "check_multi_info_loop s (running_handles s)")
  then have "callback_frame s s'" using loop_frame [of s "running_handles s"] by simp
  then show ?thesis
    by (simp add: check_multi_info_def l Let_def callback_frame_def)
qed

lemma frame_uv_poll_stop [simp]: "callback_frame s (uv_poll_stop h s)"
  by (simp add: uv_poll_stop_def callback_frame_def split: option.splits)

lemma frame_uv_poll_start [simp]: "callback_frame s (uv_poll_start h e rc s)"
  by (simp add: uv_poll_start_def callback_frame_def split: option.splits)

lemma frame_uv_close_poll [simp]: "callback_frame s (uv_close_poll h s)"
  by (simp add: uv_close_poll_def callback_frame_def split: option.splits)

lemma frame_curl_multi_assign [simp]: "callback_frame s (fst (curl_multi_assign fd p s))"
  by (simp add: curl_multi_assign_def callback_frame_def)

lemma frame_emit [simp]: "callback_frame s (emit e s)"
  by (simp add: emit_def callback_frame_def)

lemma new_poll_handle_frame:
  "new_poll_handle fd env s = Inl (t, rc) \<Longrightarrow> callback_frame s t"
  "new_poll_handle fd env s = Inr (h, t) \<Longrightarrow> callback_frame s t"
  by (auto simp: new_poll_handle_def Let_def callback_frame_def emit_def curl_multi_assign_def
        uv_close_poll_def split: if_splits prod.splits option.splits)

lemma socket_action_frame:
  "callback_frame s (fst (curl_perform_socket_action easy fd action socketp env s))"
proof (cases socketp)
  case None
  show ?thesis
  proof (cases "new_poll_handle fd env s")
    case (Inl a)
    then show ?thesis using None new_poll_handle_frame(1) [of fd env s "fst a" "snd a"]
      by (simp add: curl_perform_socket_action_def)
  next
    case (Inr b)
    obtain h t where b: "b = (h, t)" by (cases b)
    have t: "callback_frame s t" using new_poll_handle_frame(2) Inr b by simp
    show ?thesis
      using t None Inr b
      by (auto simp: curl_perform_socket_action_def Let_def callback_frame_def
            curl_multi_assign_def uv_close_poll_def uv_poll_start_def uv_poll_stop_def emit_def
            split: option.splits)
  qed
next
  case (Some h)
  then show ?thesis
    by (auto simp: curl_perform_socket_action_def Let_def callback_frame_def
          curl_multi_assign_def uv_close_poll_def uv_poll_start_def uv_poll_stop_def emit_def
          split: option.splits)
qed

lemma call_socket_function_frame:
  "callback_frame s (call_socket_function easy fd action env s)"
proof -
  define s1 where "s1 = (if action \<noteq> CURL_POLL_REMOVE \<and> fd \<notin> dom (multi_sockets s)
                then s\<lparr>multi_sockets := (multi_sockets s)(fd \<mapsto> None)\<rparr> else s)"
  define s2 where "s2 = fst (curl_perform_socket_action easy fd action (socketp_of s1 fd) env s1)"
  have t1: "callback_frame s s1" by (simp add: s1_def callback_frame_def)
  have "callback_frame s1 s2" unfolding s2_def by (rule socket_action_frame)
  with t1 have a: "callback_frame s s2" by (rule callback_frame_trans)
  have "call_socket_function easy fd action env s =
        (if action = CURL_POLL_REMOVE then s2\<lparr>multi_sockets := (multi_sockets s2)(fd := None)\<rparr> else s2)"
    unfolding call_socket_function_def Let_def s2_def s1_def ..
  then show ?thesis using a by (simp add: callback_frame_def)
qed

lemma call_read_function_frame: "callback_frame s (call_read_function i sz ni s)"
proof -
  have "easy_handle (fst (read_once rq ctx)) = easy_handle ctx" for rq ctx
    by (cases rq) (auto simp: read_once_def curl_read_callback_def Let_def split: option.splits)
  then show ?thesis
    by (auto simp: call_read_function_def callback_frame_def map_update list_update_same_conv)
qed

lemma pump_frame:
  "callback_frame s (fst (curl_multi_socket_action p fd flags s))"
  "callback_frame s (run_lib_steps xs s)"
  "callback_frame s (run_lib_step x s)"
  "callback_frame s (fst (handle_curl_timeout p t s))"
proof (induction p fd flags s and xs s and x s and p t s
       rule: curl_multi_socket_action_run_lib_steps_run_lib_step_handle_curl_timeout.induct)
  case (1 steps still_running rc sockfd flags s)
  show ?case using callback_frame_trans [OF frame_emit 1] by simp
next
  case (2 s)
  then show ?case by simp
next
  case (3 x xs s)
  then show ?case by (auto intro: callback_frame_trans)
next
  case (4 easy sockfd action env s)
  then show ?case by (simp add: call_socket_function_frame)
next
  case (5 timeout_ms reentry s)
  then show ?case by simp
next
  case (6 sz nmemb s)
  then show ?case by (simp add: curl_write_callback_def Let_def callback_frame_def)
next
  case (7 i sz nitems s)
  then show ?case by (simp add: call_read_function_frame)
next
  case (8 m s)
  then show ?case by (simp add: callback_frame_def)
next
  case (9 reentry timeout_ms s)
  show ?case
  proof (cases "timeout_ms = 0")
    case True
    obtain s1 n mc where p: "curl_multi_socket_action reentry CURL_SOCKET_TIMEOUT 0 s = (s1, n, mc)"
      by (cases "curl_multi_socket_action reentry CURL_SOCKET_TIMEOUT 0 s")
    let ?s2 = "(if mc \<noteq> CURLM_OK then emit (Ev_stderr (Msg_socket_action_failed mc)) s1 else s1)\<lparr>running_handles := n\<rparr>"
    have "callback_frame s s1" using 9 True p by simp
    moreover have "callback_frame s1 ?s2" by (simp add: callback_frame_def emit_def)
    moreover have "callback_frame ?s2 (check_multi_info ?s2)" by (rule check_multi_info_frame)
    ultimately have "callback_frame s (check_multi_info ?s2)" by (blast intro: callback_frame_trans)
    then show ?thesis using True p by simp
  next
    case False
    then show ?thesis by (simp add: callback_frame_def)
  qed
qed

section \<open>The event loop and the trace\<close>

lemma callbacks_only_milestones: "callbacks_only s t \<Longrightarrow> milestones t = milestones s"
proof -
  have "filter is_milestone es = []" if "list_all is_callback_event es" for es
    using that by (induction es) (auto elim: is_callback_event.elims)
  then show "callbacks_only s t \<Longrightarrow> milestones t = milestones s"
    by (auto simp: callbacks_only_def milestones_def)
qed

lemma on_uv_curl_timeout_callbacks_only: "callbacks_only s (on_uv_curl_timeout p s)"
proof -
  obtain s1 n mc where p: "curl_multi_socket_action p CURL_SOCKET_TIMEOUT 0 s = (s1, n, mc)"
    by (cases "curl_multi_socket_action p CURL_SOCKET_TIMEOUT 0 s")
  let ?s2 = "(if mc \<noteq> CURLM_OK then emit (Ev_stderr (Msg_socket_action_failed mc)) s1 else s1)\<lparr>running_handles := n\<rparr>"
  have "callbacks_only s s1" using pump_callbacks_only(1) [of s p CURL_SOCKET_TIMEOUT 0] p by simp
  moreover have "callbacks_only s1 ?s2" by (simp add: callbacks_only_def emit_def)
  moreover have "callbacks_only ?s2 (check_multi_info ?s2)" by (rule check_multi_info_callbacks_only)
  ultimately have "callbacks_only s (check_multi_info ?s2)" by (blast intro: callbacks_only_trans)
  then show ?thesis using p by (simp add: on_uv_curl_timeout_def)
qed

lemma on_uv_socket_event_callbacks_only: "callbacks_only s (on_uv_socket_event p h st ev s)"
proof -
  define s0 where "s0 = (if st < 0 then emit (Ev_stderr (Msg_socket_event_error st)) s else s)"
  have a: "callbacks_only s s0" by (simp add: s0_def callbacks_only_emit)
  show ?thesis
  proof (cases "uv_fileno s0 h")
    case None
    have "callbacks_only s0 (emit (Ev_stderr Msg_fileno_failed) s0)" by (simp add: callbacks_only_emit)
    with a have "callbacks_only s (emit (Ev_stderr Msg_fileno_failed) s0)" by (rule callbacks_only_trans)
    then show ?thesis using None by (simp add: on_uv_socket_event_def Let_def s0_def [symmetric])
  next
    case (Some fd)
    define flags where "flags = (if ev AND UV_READABLE \<noteq> 0 then CURL_CSELECT_IN else 0)
                  OR (if ev AND UV_WRITABLE \<noteq> 0 then CURL_CSELECT_OUT else 0)"
    obtain s1 n mc where p: "curl_multi_socket_action p fd flags s0 = (s1, n, mc)"
      by (cases "curl_multi_socket_action p fd flags s0")
    let ?s2 = "(if mc \<noteq> CURLM_OK then emit (Ev_stderr (Msg_socket_action_failed mc)) s1 else s1)\<lparr>running_handles := n\<rparr>"
    have "callbacks_only s0 s1" using pump_callbacks_only(1) [of s0 p fd flags] p by simp
    moreover have "callbacks_only s1 ?s2" by (simp add: callbacks_only_def emit_def)
    moreover have "callbacks_only ?s2 (check_multi_info ?s2)" by (rule check_multi_info_callbacks_only)
    ultimately have "callbacks_only s (check_multi_info ?s2)" using a by (blast intro: callbacks_only_trans)
    moreover have "on_uv_socket_event p h st ev s = check_multi_info ?s2"
      unfolding on_uv_socket_event_def Let_def s0_def [symmetric] flags_def [symmetric]
      using Some p by simp
    ultimately show ?thesis by simp
  qed
qed

lemma uv_dispatch_callbacks_only: "callbacks_only s (uv_dispatch e s)"
proof (cases e)
  case (Timeout_timer_due p)
  let ?s = "s\<lparr>timeout_timer := timer_expire (timeout_timer s)\<rparr>"
  have "callbacks_only s ?s" by (simp add: callbacks_only_def)
  then have "callbacks_only s (on_uv_curl_timeout p ?s)"
    using on_uv_curl_timeout_callbacks_only by (rule callbacks_only_trans)
  then show ?thesis using Timeout_timer_due by (simp add: uv_dispatch_def)
next
  case Test_timer_due
  then show ?thesis by (simp add: uv_dispatch_def on_test_timeout_dummy_def callbacks_only_def)
next
  case Test_timer_upload_due
  then show ?thesis by (simp add: uv_dispatch_def on_test_timeout_dummy_def callbacks_only_def)
next
  case (Poll_ready h st ev p)
  then show ?thesis
    by (simp add: uv_dispatch_def on_uv_socket_event_callbacks_only split: option.splits)
qed

lemma trace_uv_run_closing [simp]: "trace (uv_run_closing s) = trace s"
  by (simp add: uv_run_closing_def)

lemma fold_uv_dispatch_callbacks_only: "callbacks_only s (fold uv_dispatch evs s)"
proof (induction evs arbitrary: s)
  case Nil
  show ?case by simp
next
  case (Cons e evs)
  show ?case using callbacks_only_trans [OF uv_dispatch_callbacks_only Cons] by simp
qed

lemma uv_run_nowait_trace:
  "\<exists>es. trace (uv_run_nowait evs s) = trace s @ Ev_uv_run UV_RUN_NOWAIT # es \<and> list_all is_callback_event es"
proof -
  let ?s1 = "emit (Ev_uv_run UV_RUN_NOWAIT) s"
  have "callbacks_only ?s1 (fold uv_dispatch evs ?s1)" by (rule fold_uv_dispatch_callbacks_only)
  then show ?thesis
    by (auto simp: uv_run_nowait_def Let_def callbacks_only_def emit_def)
qed

lemma uv_run_default_loop_callbacks_only:
  "uv_run_default_loop evs s = Some t \<Longrightarrow> callbacks_only s t"
proof (induction evs arbitrary: s)
  case Nil
  then show ?case by (simp split: if_splits)
next
  case (Cons e evs)
  show ?case
  proof (cases "uv_loop_alive s")
    case True
    then have "callbacks_only (uv_run_closing (uv_dispatch e s)) t" using Cons by simp
    then have "callbacks_only (uv_dispatch e s) t" by (rule callbacks_only_left [rotated]) simp
    with uv_dispatch_callbacks_only show ?thesis by (rule callbacks_only_trans)
  next
    case False
    then show ?thesis using Cons.prems by simp
  qed
qed

lemma uv_run_default_trace:
  "uv_run_default evs s = Some t \<Longrightarrow>
     \<exists>es. trace t = trace s @ Ev_uv_run UV_RUN_DEFAULT # es \<and> list_all is_callback_event es"
  using uv_run_default_loop_callbacks_only [of evs "emit (Ev_uv_run UV_RUN_DEFAULT) s" t]
  by (auto simp: uv_run_default_def callbacks_only_def emit_def)

section \<open>The result block of a run\<close>

lemma milestones_emit:
  "milestones (emit e s) = milestones s @ (if is_milestone e then [e] else [])"
  by (simp add: milestones_def emit_def)

lemma curl_easy_cleanup_unregistered:
  "h \<notin> set (multi_handles s) \<Longrightarrow>
     curl_easy_cleanup d h s =
       emit (Ev_easy_cleanup h False) (s\<lparr>easy_live := removeAll h (easy_live s)\<rparr>)"
  by (simp add: curl_easy_cleanup_def Let_def emit_def)

lemma milestones_curl_easy_cleanup [simp]: "milestones (curl_easy_cleanup d h s) = milestones s"
proof -
  have p: "milestones (run_lib_steps d t) = milestones t" for t
    by (rule callbacks_only_milestones) (rule pump_callbacks_only)
  have u: "milestones (t\<lparr>easy_live := x\<rparr>) = milestones t"
          "milestones (t\<lparr>multi_handles := y\<rparr>) = milestones t" for t x y
    by (simp_all add: milestones_def)
  show ?thesis
    by (simp add: curl_easy_cleanup_def Let_def u p milestones_emit)
qed

lemma milestones_fold_cleanup [simp]:
  "milestones (fold (\<lambda>h. curl_easy_cleanup (f h) h) hs s) = milestones s"
  by (induction hs arbitrary: s) simp_all

lemma milestones_fold_upload_cleanup [simp]:
  "milestones (fold (upload_cleanup env) cs s) = milestones s"
  by (induction cs arbitrary: s) (simp_all add: upload_cleanup_def split: option.splits)

lemma milestones_uv_run_nowait [simp]:
  "milestones (uv_run_nowait evs s) = milestones s @ [Ev_uv_run UV_RUN_NOWAIT]"
proof -
  obtain es where e: "trace (uv_run_nowait evs s) = trace s @ Ev_uv_run UV_RUN_NOWAIT # es"
    "list_all is_callback_event es"
    using uv_run_nowait_trace by blast
  have "callbacks_only (emit (Ev_uv_run UV_RUN_NOWAIT) s) (uv_run_nowait evs s)"
    using e by (simp add: callbacks_only_def emit_def)
  then show ?thesis by (simp add: callbacks_only_milestones milestones_emit)
qed

lemma milestones_trace_cong: "trace t = trace s \<Longrightarrow> milestones t = milestones s"
  by (simp add: milestones_def)

lemma download_finish_milestones:
  "milestones (download_finish env hs k s) =
     milestones s @
     [Ev_uv_run UV_RUN_NOWAIT,
      Ev_results Download k
        (total_downloaded_bytes (uv_run_nowait (nowait_events env)
            (s\<lparr>test_duration_timer := close_test_timer (test_duration_timer s)\<rparr>)))
        (real (unat (end_time_ns env - start_time_ns env)) / 1000000000)
        (if real (unat (end_time_ns env - start_time_ns env)) / 1000000000 > 0.001 \<and>
            total_downloaded_bytes (uv_run_nowait (nowait_events env)
              (s\<lparr>test_duration_timer := close_test_timer (test_duration_timer s)\<rparr>)) > 0
         then real_of_int (total_downloaded_bytes (uv_run_nowait (nowait_events env)
                (s\<lparr>test_duration_timer := close_test_timer (test_duration_timer s)\<rparr>))) * 8
              / (real (unat (end_time_ns env - start_time_ns env)) / 1000000000) / (1000 * 1000)
         else 0)]"
proof -
  have r: "milestones (t\<lparr>running_handles := 0\<rparr>) = milestones t" for t
    by (simp add: milestones_def)
  have c: "milestones (s\<lparr>test_duration_timer := x\<rparr>) = milestones s" for x
    by (simp add: milestones_def)
  show ?thesis
    unfolding download_finish_def Let_def
    by (simp only: r milestones_fold_cleanup milestones_emit milestones_uv_run_nowait c) simp
qed

lemma upload_finish_milestones:
  "milestones (upload_finish env n k s) =
     milestones s @
     [Ev_uv_run UV_RUN_NOWAIT,
      Ev_results Upload k
        (sum_bytes_sent (take (nat n) (stream_contexts (uv_run_nowait (nowait_events env)
            (s\<lparr>test_duration_timer_upload := close_test_timer (test_duration_timer_upload s)\<rparr>)))))
        (real (unat (end_time_ns env - start_time_ns env)) / 1000000000)
        (if real (unat (end_time_ns env - start_time_ns env)) / 1000000000 > 0.001 \<and>
            sum_bytes_sent (take (nat n) (stream_contexts (uv_run_nowait (nowait_events env)
              (s\<lparr>test_duration_timer_upload := close_test_timer (test_duration_timer_upload s)\<rparr>)))) > 0
         then real_of_int (sum_bytes_sent (take (nat n) (stream_contexts (uv_run_nowait (nowait_events env)
                (s\<lparr>test_duration_timer_upload := close_test_timer (test_duration_timer_upload s)\<rparr>))))) * 8
              / (real (unat (end_time_ns env - start_time_ns env)) / 1000000000) / (1000 * 1000)
         else 0)]"
proof -
  have r: "milestones (t\<lparr>running_handles := 0\<rparr>) = milestones t" for t
    by (simp add: milestones_def)
  have c: "milestones (s\<lparr>test_duration_timer_upload := x\<rparr>) = milestones s" for x
    by (simp add: milestones_def)
  show ?thesis
    unfolding upload_finish_def Let_def
    by (simp only: r milestones_fold_upload_cleanup milestones_emit milestones_uv_run_nowait c) simp
qed


lemmas eval_loop =
  uv_run_nowait_def uv_loop_alive_def timer_alive_def poll_alive_def uv_run_closing_def
  close_test_timer_def uv_close_timer_def uv_dispatch_def on_test_timeout_dummy_def
  timer_expire_def curl_easy_cleanup_def


section \<open>The properties at concrete states\<close>

theorem check_multi_info_idempotent_witness:
  "trace (check_multi_info two_done)
     = [Ev_multi_remove 0, Ev_stderr (Msg_transfer_failed 1 7), Ev_multi_remove 1] \<and>
   trace (check_multi_info (check_multi_info two_done))
     = [Ev_multi_remove 0, Ev_stderr (Msg_transfer_failed 1 7), Ev_multi_remove 1] \<and>
   multi_handles (check_multi_info (check_multi_info two_done)) = [] \<and>
   running_handles (check_multi_info (check_multi_info two_done)) = 0"
proof -
  have "trace (check_multi_info two_done)
     = [Ev_multi_remove 0, Ev_stderr (Msg_transfer_failed 1 7), Ev_multi_remove 1]"
    "multi_handles (check_multi_info two_done) = []"
    "running_handles (check_multi_info two_done) = 0"
    by (simp_all add: two_done_def eval_engine)
  then show ?thesis using check_multi_info_idempotent [of two_done] by simp
qed

lemma watching_polls: "polls watching 0 = Some \<lparr>poll_fd = 5, poll_events = UV_READABLE, poll_closing = False\<rparr>"
  by (simp add: watching_def call_socket_function_def curl_perform_socket_action_def
        new_poll_handle_def curl_multi_assign_def socketp_of_def uv_poll_start_def
        initial_engine_def Let_def)

lemma watching_socketp: "socketp_of watching 5 = Some 0"
  by (simp add: watching_def call_socket_function_def curl_perform_socket_action_def
        new_poll_handle_def curl_multi_assign_def socketp_of_def uv_poll_start_def
        initial_engine_def Let_def)

theorem socket_action_remove_and_none_witness:
  "polls watching 0 = Some \<lparr>poll_fd = 5, poll_events = UV_READABLE, poll_closing = False\<rparr> \<and>
   socketp_of watching 5 = Some 0 \<and>
   polls (fst (curl_perform_socket_action 0 5 CURL_POLL_REMOVE (Some 0) (Sock_env True 0 0) watching)) 0
     = Some \<lparr>poll_fd = 5, poll_events = 0, poll_closing = True\<rparr> \<and>
   polls (uv_run_closing
            (fst (curl_perform_socket_action 0 5 CURL_POLL_REMOVE (Some 0) (Sock_env True 0 0) watching))) 0
     = None \<and>
   socketp_of (fst (curl_perform_socket_action 0 5 CURL_POLL_REMOVE (Some 0) (Sock_env True 0 0) watching)) 5
     = None \<and>
   polls (fst (curl_perform_socket_action 0 5 CURL_POLL_NONE (Some 0) (Sock_env True 0 0) watching)) 0
     = Some \<lparr>poll_fd = 5, poll_events = 0, poll_closing = False\<rparr> \<and>
   socketp_of (fst (curl_perform_socket_action 0 5 CURL_POLL_NONE (Some 0) (Sock_env True 0 0) watching)) 5
     = Some 0 \<and>
   polls (fst (curl_perform_socket_action 0 5 CURL_POLL_IN (Some 0) (Sock_env True 0 0)
            (fst (curl_perform_socket_action 0 5 CURL_POLL_NONE (Some 0) (Sock_env True 0 0) watching)))) 0
     = Some \<lparr>poll_fd = 5, poll_events = UV_READABLE, poll_closing = False\<rparr>"
proof -
  let ?p = "\<lparr>poll_fd = 5, poll_events = UV_READABLE, poll_closing = False\<rparr>"
  let ?env = "Sock_env True 0 0"
  note t = socket_action_remove_and_none [where socketp = "Some 0" and h = 0 and s = watching
      and p = ?p and easy = 0 and sockfd = 5 and env = ?env and env' = ?env
      and action = CURL_POLL_NONE, unfolded Let_def]
  have h1: "Some (0::nat) = Some 0 \<and> polls watching 0 = Some ?p"
    using watching_polls by simp
  have h2: "Some (0::nat) = Some 0 \<and> polls watching 0 = Some ?p \<and>
      CURL_POLL_NONE \<notin> {CURL_POLL_IN, CURL_POLL_OUT, CURL_POLL_INOUT, CURL_POLL_REMOVE}"
    using watching_polls by simp
  note rm = t [THEN conjunct1, rule_format, OF h1]
  note no = t [THEN conjunct2, rule_format, OF h2]
  have st: "start_err ?env = 0" by simp
  have a: "polls (fst (curl_perform_socket_action 0 5 CURL_POLL_REMOVE (Some 0) ?env watching)) 0
     = Some \<lparr>poll_fd = 5, poll_events = 0, poll_closing = True\<rparr>"
    using rm [THEN conjunct2, THEN conjunct1] by simp
  have b: "polls (uv_run_closing
            (fst (curl_perform_socket_action 0 5 CURL_POLL_REMOVE (Some 0) ?env watching))) 0 = None"
    using rm [THEN conjunct2, THEN conjunct2, THEN conjunct1] .
  have c: "socketp_of (fst (curl_perform_socket_action 0 5 CURL_POLL_REMOVE (Some 0) ?env watching)) 5 = None"
    using rm [THEN conjunct2, THEN conjunct2, THEN conjunct2] .
  have d: "fst (curl_perform_socket_action 0 5 CURL_POLL_NONE (Some 0) ?env watching)
      = watching\<lparr>polls := (polls watching)(0 \<mapsto> ?p\<lparr>poll_events := 0\<rparr>)\<rparr>"
    using no [THEN conjunct2, THEN conjunct1] .
  have e: "polls (fst (curl_perform_socket_action 0 5 CURL_POLL_IN (Some 0) ?env
            (fst (curl_perform_socket_action 0 5 CURL_POLL_NONE (Some 0) ?env watching)))) 0
     = Some \<lparr>poll_fd = 5, poll_events = UV_READABLE, poll_closing = False\<rparr>"
    using no [THEN conjunct2, THEN conjunct2, THEN conjunct2, THEN conjunct2, rule_format, OF st] by simp
  have f: "polls (fst (curl_perform_socket_action 0 5 CURL_POLL_NONE (Some 0) ?env watching)) 0
     = Some \<lparr>poll_fd = 5, poll_events = 0, poll_closing = False\<rparr>"
    unfolding d by simp
  have g: "socketp_of (fst (curl_perform_socket_action 0 5 CURL_POLL_NONE (Some 0) ?env watching)) 5
     = Some 0"
    unfolding d using watching_socketp by (simp add: socketp_of_def)
  show ?thesis using watching_polls watching_socketp a b c e f g by (intro conjI)
qed

section \<open>The registration loops\<close>

lemma fresh_not_live: "handles_fresh s \<Longrightarrow> next_easy s \<notin> set (easy_live s)"
  by (auto simp: handles_fresh_def list_all_iff)

lemma fresh_not_registered: "handles_fresh s \<Longrightarrow> next_easy s \<notin> set (multi_handles s)"
  by (auto simp: handles_fresh_def list_all_iff)

lemma removeAll_fresh: "h \<notin> set xs \<Longrightarrow> removeAll h (xs @ [h]) = xs"
  by simp

lemma add_handle_ok:
  assumes "add_rc c = CURLM_OK" "handles_fresh s" "easy_live s = live @ [h]" "next_easy s = Suc h"
  shows "snd (curl_multi_add_handle c h s) = CURLM_OK"
    and "easy_live (fst (curl_multi_add_handle c h s)) = live @ [h]"
    and "next_easy (fst (curl_multi_add_handle c h s)) = Suc h"
    and "handles_fresh (fst (curl_multi_add_handle c h s))"
    and "milestones (fst (curl_multi_add_handle c h s)) = milestones s"
    and "map easy_handle (stream_contexts (fst (curl_multi_add_handle c h s))) = map easy_handle (stream_contexts s)"
proof -
  let ?s = "s\<lparr>multi_handles := multi_handles s @ [h]\<rparr>"
  let ?t = "run_lib_steps (add_steps c) ?s"
  have e: "curl_multi_add_handle c h s = (?t, CURLM_OK)"
    using assms(1) by (simp add: curl_multi_add_handle_def)
  have f: "callback_frame ?s ?t" by (rule pump_frame)
  have c: "callbacks_only ?s ?t" by (rule pump_callbacks_only)
  show "snd (curl_multi_add_handle c h s) = CURLM_OK" using e by simp
  show "easy_live (fst (curl_multi_add_handle c h s)) = live @ [h]"
    using e f assms(3) by (simp add: callback_frame_def)
  show "next_easy (fst (curl_multi_add_handle c h s)) = Suc h"
    using e f assms(4) by (simp add: callback_frame_def)
  show "handles_fresh (fst (curl_multi_add_handle c h s))"
    using e f assms(2,4) by (auto simp: callback_frame_def handles_fresh_def list_all_iff)
  show "milestones (fst (curl_multi_add_handle c h s)) = milestones s"
    using e callbacks_only_milestones [OF c] by (simp add: milestones_def)
  show "map easy_handle (stream_contexts (fst (curl_multi_add_handle c h s))) = map easy_handle (stream_contexts s)"
    using e f by (simp add: callback_frame_def)
qed

lemma add_handle_failed:
  "add_rc c \<noteq> CURLM_OK \<Longrightarrow> curl_multi_add_handle c h s = (s, add_rc c)"
  by (simp add: curl_multi_add_handle_def)

lemma download_connection_failed:
  assumes "\<not> download_ok (conn env i)" "handles_fresh s"
  shows "\<exists>s'. download_connection env i (s, hs, k) = (s', hs, k) \<and>
           easy_live s' = easy_live s \<and> multi_handles s' = multi_handles s \<and>
           handles_fresh s' \<and> milestones s' = milestones s"
  using assms fresh_not_live [OF assms(2)]
  by (auto simp: download_connection_def download_ok_def Let_def curl_easy_init_def
        curl_easy_cleanup_def emit_def add_handle_failed handles_fresh_def milestones_def list_all_iff less_Suc_eq
        split: prod.splits)

lemma download_connection_ok:
  assumes "download_ok (conn env i)" "handles_fresh s"
  shows "\<exists>s'. download_connection env i (s, hs, k) = (s', hs[nat k := next_easy s], k + 1) \<and>
           easy_live s' = easy_live s @ [next_easy s] \<and>
           handles_fresh s' \<and> milestones s' = milestones s"
proof -
  let ?h = "next_easy s"
  let ?s1 = "s\<lparr>easy_live := easy_live s @ [?h], next_easy := Suc ?h\<rparr>"
  have f1: "handles_fresh ?s1"
    using assms(2) by (auto simp: handles_fresh_def list_all_iff less_Suc_eq)
  have rc: "add_rc (conn env i) = CURLM_OK" using assms(1) by (simp add: download_ok_def)
  have p3: "easy_live ?s1 = easy_live s @ [?h]" and p4: "next_easy ?s1 = Suc ?h" by simp_all
  note a = add_handle_ok [OF rc f1 p3 p4]
  obtain s2 mc where c: "curl_multi_add_handle (conn env i) ?h ?s1 = (s2, mc)"
    by (cases "curl_multi_add_handle (conn env i) ?h ?s1")
  have mc: "mc = CURLM_OK" using a(1) c by simp
  have e: "download_connection env i (s, hs, k) =
      (fst (curl_multi_add_handle (conn env i) ?h ?s1), hs[nat k := ?h], k + 1)"
    using assms(1) c mc
    by (simp add: download_connection_def download_ok_def Let_def curl_easy_init_def)
  show ?thesis
    using e a by (simp add: milestones_def)
qed

lemma download_fold:
  assumes "handles_fresh s" "0 \<le> k" "nat k + length js \<le> length hs"
  shows "\<exists>s' hs' news.
           fold (download_connection env) js (s, hs, k) = (s', hs', k + int (length news)) \<and>
           length news = length (filter (\<lambda>i. download_ok (conn env i)) js) \<and>
           easy_live s' = easy_live s @ news \<and>
           take (nat k + length news) hs' = take (nat k) hs @ news \<and>
           length hs' = length hs \<and> handles_fresh s' \<and>
           milestones s' = milestones s"
  using assms
proof (induction js arbitrary: s hs k)
  case Nil
  show ?case using Nil.prems(1) by (intro exI [of _ s] exI [of _ hs] exI [of _ "[]"]) simp
next
  case (Cons j js)
  show ?case
  proof (cases "download_ok (conn env j)")
    case False
    obtain s1 where s1: "download_connection env j (s, hs, k) = (s1, hs, k)"
      "easy_live s1 = easy_live s" "handles_fresh s1" "milestones s1 = milestones s"
      using download_connection_failed [OF False Cons.prems(1), of hs k] by blast
    have b: "nat k + length js \<le> length hs" using Cons.prems(3) by simp
    obtain s' hs' news where
      "fold (download_connection env) js (s1, hs, k) = (s', hs', k + int (length news))"
      "length news = length (filter (\<lambda>i. download_ok (conn env i)) js)"
      "easy_live s' = easy_live s1 @ news"
      "take (nat k + length news) hs' = take (nat k) hs @ news"
      "length hs' = length hs" "handles_fresh s'"
      "milestones s' = milestones s1"
      using Cons.IH [OF s1(3) Cons.prems(2) b] by blast
    then show ?thesis using s1 False
      by (intro exI [of _ s'] exI [of _ hs'] exI [of _ news]) simp
  next
    case True
    let ?h = "next_easy s"
    obtain s1 where s1: "download_connection env j (s, hs, k) = (s1, hs[nat k := ?h], k + 1)"
      "easy_live s1 = easy_live s @ [?h]" "handles_fresh s1" "milestones s1 = milestones s"
      using download_connection_ok [OF True Cons.prems(1), of hs k] by blast
    have k1: "0 \<le> k + 1" using Cons.prems(2) by simp
    have nk: "nat (k + 1) = Suc (nat k)" using Cons.prems(2) by simp
    have b: "nat (k + 1) + length js \<le> length (hs[nat k := ?h])" using Cons.prems(3) nk by simp
    obtain s' hs' news where r:
      "fold (download_connection env) js (s1, hs[nat k := ?h], k + 1) = (s', hs', k + 1 + int (length news))"
      "length news = length (filter (\<lambda>i. download_ok (conn env i)) js)"
      "easy_live s' = easy_live s1 @ news"
      "take (nat (k + 1) + length news) hs' = take (nat (k + 1)) (hs[nat k := ?h]) @ news"
      "length hs' = length (hs[nat k := ?h])" "handles_fresh s'"
      "milestones s' = milestones s1"
      using Cons.IH [OF s1(3) k1 b] by blast
    have lt: "nat k < length hs" using Cons.prems(3) by simp
    have tk: "take (nat (k + 1)) (hs[nat k := ?h]) = take (nat k) hs @ [?h]"
      using lt by (simp add: nk take_Suc_conv_app_nth)
    show ?thesis
      using r s1 True tk nk
      by (intro exI [of _ s'] exI [of _ hs'] exI [of _ "?h # news"]) simp
  qed
qed

lemma download_register_count:
  assumes "handles_fresh s" "num_connections \<le> 10"
  shows "\<exists>s' hs' k.
           download_register env num_connections s = (s', hs', k) \<and>
           k = int (length (filter (\<lambda>i. download_ok (conn env i)) [0..<nat num_connections])) \<and>
           k \<le> int (nat num_connections) \<and>
           easy_live s' = easy_live s @ take (nat k) hs' \<and>
           handles_fresh s' \<and> milestones s' = milestones s"
proof -
  have b: "nat 0 + length [0..<nat num_connections] \<le> length (replicate 10 (0::nat))"
    using assms(2) by simp
  obtain s' hs' news where r:
    "fold (download_connection env) [0..<nat num_connections] (s, replicate 10 0, 0)
       = (s', hs', 0 + int (length news))"
    "length news = length (filter (\<lambda>i. download_ok (conn env i)) [0..<nat num_connections])"
    "easy_live s' = easy_live s @ news"
    "take (nat 0 + length news) hs' = take (nat 0) (replicate 10 0) @ news"
    "handles_fresh s'" "milestones s' = milestones s"
    using download_fold [OF assms(1) order_refl b, of env] by blast
  have "length (filter (\<lambda>i. download_ok (conn env i)) [0..<nat num_connections]) \<le> nat num_connections"
    using length_filter_le [of _ "[0..<nat num_connections]"] by simp
  then have "int (length news) \<le> int (nat num_connections)" using r(2) by (simp only: of_nat_le_iff)
  then show ?thesis
    using r by (intro exI [of _ s'] exI [of _ hs'] exI [of _ "int (length news)"])
               (simp add: download_register_def del: int_nat_eq)
qed

lemma stream_handles_append [simp]:
  "stream_handles (xs @ ys) = stream_handles xs @ stream_handles ys"
  by (simp add: stream_handles_def)

lemma stream_handles_cong:
  assumes "map easy_handle xs = map easy_handle ys"
  shows "stream_handles xs = stream_handles ys"
proof -
  have "stream_handles zs = concat (map (\<lambda>x. case x of None \<Rightarrow> [] | Some h \<Rightarrow> [h]) (map easy_handle zs))" for zs
    unfolding stream_handles_def map_map comp_def ..
  then show ?thesis using assms by (simp only:)
qed

lemma upload_skip_props:
  assumes "easy_live s = live @ [h]" "h \<notin> set live" "length (stream_contexts s) = Suc i"
    and "h \<notin> set (multi_handles s)"
  shows "easy_live (upload_skip env i h rc s) = live"
    and "multi_handles (upload_skip env i h rc s) = multi_handles s"
    and "next_easy (upload_skip env i h rc s) = next_easy s"
    and "map easy_handle (stream_contexts (upload_skip env i h rc s)) = (map easy_handle (stream_contexts s))[i := None]"
    and "milestones (upload_skip env i h rc s) = milestones s"
  using assms
  by (simp_all add: upload_skip_def set_easy_handle_def curl_easy_cleanup_unregistered emit_def
        milestones_def map_update)

lemma upload_connection_failed:
  assumes "\<not> upload_ok (conn env i)" "handles_fresh s" "length (stream_contexts s) = i"
  shows "\<exists>s'. upload_connection env sh i (s, k) = (s', k) \<and>
           easy_live s' = easy_live s \<and> multi_handles s' = multi_handles s \<and>
           map easy_handle (stream_contexts s') = map easy_handle (stream_contexts s) @ [None] \<and>
           handles_fresh s' \<and> milestones s' = milestones s"
proof (cases "easy_init_ok (conn env i)")
  case False
  then show ?thesis using assms(2,3)
    by (simp add: upload_connection_def Let_def emit_def fresh_stream_def handles_fresh_def
          milestones_def)
next
  case True
  let ?h = "next_easy s"
  let ?s0 = "s\<lparr>stream_contexts := take i (stream_contexts s) @ [fresh_stream sh None]\<rparr>"
  let ?s1 = "set_easy_handle i (Some ?h) (?s0\<lparr>easy_live := easy_live s @ [?h], next_easy := Suc ?h\<rparr>)"
  have l: "easy_live ?s1 = easy_live s @ [?h]" "?h \<notin> set (easy_live s)"
      "length (stream_contexts ?s1) = Suc i" "?h \<notin> set (multi_handles ?s1)"
    using assms(3) fresh_not_live [OF assms(2)] fresh_not_registered [OF assms(2)]
    by (simp_all add: set_easy_handle_def)
  have m: "(map easy_handle (stream_contexts ?s1))[i := None] = map easy_handle (stream_contexts s) @ [None]"
    using assms(3) by (simp add: set_easy_handle_def fresh_stream_def list_update_append)
  have n: "next_easy ?s1 = Suc ?h" "multi_handles ?s1 = multi_handles s"
      "milestones ?s1 = milestones s"
    by (simp_all add: set_easy_handle_def milestones_def)
  have fr: "handles_fresh t" if "easy_live t = easy_live s" "multi_handles t = multi_handles s"
      "next_easy t = Suc ?h" for t
    using that assms(2) by (auto simp: handles_fresh_def list_all_iff less_Suc_eq)
  note sk = upload_skip_props [OF l]
  have skip: "\<exists>s'. (upload_skip env i ?h rc ?s1, k) = (s', k) \<and>
           easy_live s' = easy_live s \<and> multi_handles s' = multi_handles s \<and>
           map easy_handle (stream_contexts s') = map easy_handle (stream_contexts s) @ [None] \<and>
           handles_fresh s' \<and> milestones s' = milestones s" for rc
    using sk [of env rc] m n fr [of "upload_skip env i ?h rc ?s1"] by simp
  show ?thesis
  proof (cases "add_rc (conn env i) = CURLM_OK")
    case False
    let ?t = "set_easy_handle i None
                (curl_easy_cleanup (cleanup_steps env ?h) ?h
                   (emit (Ev_stderr (Msg_add_handle_failed (i + 1) (add_rc (conn env i)))) ?s1))"
    have t: "easy_live ?t = easy_live s" "multi_handles ?t = multi_handles s" "next_easy ?t = Suc ?h"
        "map easy_handle (stream_contexts ?t) = map easy_handle (stream_contexts s) @ [None]"
        "milestones ?t = milestones s"
      using l m n
      by (simp_all add: set_easy_handle_def curl_easy_cleanup_unregistered emit_def milestones_def
            map_update)
    have "\<exists>s'. (?t, k) = (s', k) \<and>
           easy_live s' = easy_live s \<and> multi_handles s' = multi_handles s \<and>
           map easy_handle (stream_contexts s') = map easy_handle (stream_contexts s) @ [None] \<and>
           handles_fresh s' \<and> milestones s' = milestones s"
      using t fr [of ?t] by simp
    then show ?thesis
      using True False skip
      by (simp add: upload_connection_def Let_def curl_easy_init_def add_handle_failed
            del: ex_simps)
  next
    case ok: True
    then show ?thesis
      using True assms(1) skip
      by (auto simp add: upload_connection_def upload_ok_def Let_def curl_easy_init_def
            simp del: ex_simps)
  qed
qed

lemma upload_connection_ok:
  assumes "upload_ok (conn env i)" "handles_fresh s" "length (stream_contexts s) = i"
  shows "\<exists>s'. upload_connection env sh i (s, k) = (s', k + 1) \<and>
           easy_live s' = easy_live s @ [next_easy s] \<and>
           map easy_handle (stream_contexts s') = map easy_handle (stream_contexts s) @ [Some (next_easy s)] \<and>
           handles_fresh s' \<and> milestones s' = milestones s"
proof -
  let ?h = "next_easy s"
  let ?s0 = "s\<lparr>stream_contexts := take i (stream_contexts s) @ [fresh_stream sh None]\<rparr>"
  let ?s1 = "set_easy_handle i (Some ?h) (?s0\<lparr>easy_live := easy_live s @ [?h], next_easy := Suc ?h\<rparr>)"
  have f1: "handles_fresh ?s1"
    using assms(2) by (auto simp: handles_fresh_def list_all_iff less_Suc_eq set_easy_handle_def)
  have rc: "add_rc (conn env i) = CURLM_OK" using assms(1) by (simp add: upload_ok_def)
  have p3: "easy_live ?s1 = easy_live s @ [?h]" and p4: "next_easy ?s1 = Suc ?h"
    by (simp_all add: set_easy_handle_def)
  note a = add_handle_ok [OF rc f1 p3 p4]
  have m: "map easy_handle (stream_contexts ?s1) = map easy_handle (stream_contexts s) @ [Some ?h]"
    using assms(3) by (simp add: set_easy_handle_def fresh_stream_def list_update_append map_update)
  have n: "milestones ?s1 = milestones s"
    by (simp_all add: set_easy_handle_def milestones_def)
  obtain s2 mc where c: "curl_multi_add_handle (conn env i) ?h ?s1 = (s2, mc)"
    by (cases "curl_multi_add_handle (conn env i) ?h ?s1")
  have mc: "mc = CURLM_OK" using a(1) c by simp
  have e: "upload_connection env sh i (s, k) = (s2, k + 1)"
    using assms(1) c mc
    by (simp add: upload_connection_def upload_ok_def Let_def curl_easy_init_def)
  show ?thesis
    using e a c m n by simp
qed

lemma upload_fold:
  assumes "handles_fresh s" "length (stream_contexts s) = a"
  shows "\<exists>s' news.
           fold (upload_connection env sh) [a..<a + m] (s, k) = (s', k + int (length news)) \<and>
           length news = length (filter (\<lambda>i. upload_ok (conn env i)) [a..<a + m]) \<and>
           easy_live s' = easy_live s @ news \<and>
           stream_handles (stream_contexts s') = stream_handles (stream_contexts s) @ news \<and>
           length (stream_contexts s') = a + m \<and> handles_fresh s' \<and>
           milestones s' = milestones s"
  using assms
proof (induction m arbitrary: a s k)
  case 0
  show ?case using 0 by (intro exI [of _ s] exI [of _ "[]"]) simp
next
  case (Suc m)
  have u: "[a..<a + Suc m] = a # [Suc a..<Suc a + m]" by (simp add: upt_conv_Cons)
  show ?case
  proof (cases "upload_ok (conn env a)")
    case False
    obtain s1 where s1: "upload_connection env sh a (s, k) = (s1, k)"
      "easy_live s1 = easy_live s"
      "map easy_handle (stream_contexts s1) = map easy_handle (stream_contexts s) @ [None]"
      "handles_fresh s1" "milestones s1 = milestones s"
      using upload_connection_failed [OF False Suc.prems, of sh k] by blast
    have len: "length (stream_contexts s1) = Suc a"
      using arg_cong [OF s1(3), of length] Suc.prems(2) by simp
    have sh1: "stream_handles (stream_contexts s1) = stream_handles (stream_contexts s)"
    proof -
      have "map easy_handle (stream_contexts s1) = map easy_handle (stream_contexts s @ [fresh_stream sh None])"
        using s1(3) by (simp add: fresh_stream_def)
      from stream_handles_cong [OF this] show ?thesis by (simp add: stream_handles_def fresh_stream_def)
    qed
    obtain s' news where
      "fold (upload_connection env sh) [Suc a..<Suc a + m] (s1, k) = (s', k + int (length news))"
      "length news = length (filter (\<lambda>i. upload_ok (conn env i)) [Suc a..<Suc a + m])"
      "easy_live s' = easy_live s1 @ news"
      "stream_handles (stream_contexts s') = stream_handles (stream_contexts s1) @ news"
      "length (stream_contexts s') = Suc a + m" "handles_fresh s'"
      "milestones s' = milestones s1"
      using Suc.IH [OF s1(4) len] by blast
    then show ?thesis unfolding u using s1 sh1 False
      by (intro exI [of _ s'] exI [of _ news]) simp
  next
    case True
    let ?h = "next_easy s"
    obtain s1 where s1: "upload_connection env sh a (s, k) = (s1, k + 1)"
      "easy_live s1 = easy_live s @ [?h]"
      "map easy_handle (stream_contexts s1) = map easy_handle (stream_contexts s) @ [Some ?h]"
      "handles_fresh s1" "milestones s1 = milestones s"
      using upload_connection_ok [OF True Suc.prems, of sh k] by blast
    have len: "length (stream_contexts s1) = Suc a"
      using arg_cong [OF s1(3), of length] Suc.prems(2) by simp
    have sh1: "stream_handles (stream_contexts s1) = stream_handles (stream_contexts s) @ [?h]"
    proof -
      have "map easy_handle (stream_contexts s1) = map easy_handle (stream_contexts s @ [fresh_stream sh (Some ?h)])"
        using s1(3) by (simp add: fresh_stream_def)
      from stream_handles_cong [OF this] show ?thesis by (simp add: stream_handles_def fresh_stream_def)
    qed
    obtain s' news where
      "fold (upload_connection env sh) [Suc a..<Suc a + m] (s1, k + 1) = (s', k + 1 + int (length news))"
      "length news = length (filter (\<lambda>i. upload_ok (conn env i)) [Suc a..<Suc a + m])"
      "easy_live s' = easy_live s1 @ news"
      "stream_handles (stream_contexts s') = stream_handles (stream_contexts s1) @ news"
      "length (stream_contexts s') = Suc a + m" "handles_fresh s'"
      "milestones s' = milestones s1"
      using Suc.IH [OF s1(4) len] by blast
    then show ?thesis unfolding u using s1 sh1 True
      by (intro exI [of _ s'] exI [of _ "?h # news"]) simp
  qed
qed

lemma upload_register_count:
  assumes "handles_fresh s"
  shows "\<exists>s' k.
           upload_register env sh num_connections s = (s', k) \<and>
           k = int (length (filter (\<lambda>i. upload_ok (conn env i)) [0..<nat num_connections])) \<and>
           k \<le> int (nat num_connections) \<and>
           easy_live s' = easy_live s @ stream_handles (stream_contexts s') \<and>
           length (stream_handles (stream_contexts s')) = nat k \<and>
           length (stream_contexts s') = nat num_connections \<and>
           handles_fresh s' \<and> milestones s' = milestones s"
proof -
  let ?s = "s\<lparr>stream_contexts := []\<rparr>"
  have f: "handles_fresh ?s" using assms by (simp add: handles_fresh_def)
  have l: "length (stream_contexts ?s) = 0" by simp
  obtain s' news where r:
    "fold (upload_connection env sh) [0..<0 + nat num_connections] (?s, 0) = (s', 0 + int (length news))"
    "length news = length (filter (\<lambda>i. upload_ok (conn env i)) [0..<0 + nat num_connections])"
    "easy_live s' = easy_live ?s @ news"
    "stream_handles (stream_contexts s') = stream_handles (stream_contexts ?s) @ news"
    "length (stream_contexts s') = 0 + nat num_connections" "handles_fresh s'"
    "milestones s' = milestones ?s"
    using upload_fold [OF f l, of env sh "nat num_connections" 0] by blast
  have "length (filter (\<lambda>i. upload_ok (conn env i)) [0..<nat num_connections]) \<le> nat num_connections"
    using length_filter_le [of _ "[0..<nat num_connections]"] by simp
  then have "int (length news) \<le> int (nat num_connections)" using r(2) by (simp only: of_nat_le_iff add_0)
  then show ?thesis
    using r by (intro exI [of _ s'] exI [of _ "int (length news)"])
               (simp add: upload_register_def stream_handles_def milestones_def del: int_nat_eq)
qed

section \<open>Whole runs\<close>

lemma uv_run_default_milestones:
  "uv_run_default evs s = Some t \<Longrightarrow> milestones t = milestones s @ [Ev_uv_run UV_RUN_DEFAULT]"
proof -
  assume "uv_run_default evs s = Some t"
  then have "callbacks_only (emit (Ev_uv_run UV_RUN_DEFAULT) s) t"
    by (simp add: uv_run_default_def uv_run_default_loop_callbacks_only)
  then show ?thesis by (simp add: callbacks_only_milestones milestones_emit)
qed

lemma download_started:
  assumes "handles_fresh s" "num_connections \<le> 10" "timer_init_rc env = 0"
  shows "\<exists>s1 hs.
           download_register env num_connections
             (s\<lparr>total_downloaded_bytes := 0,
                 test_duration_timer := uv_timer_start uv_timer_init 10000 10000\<rparr>)
             = (s1, hs, int (download_registered env num_connections)) \<and>
           milestones s1 = milestones s \<and>
           perform_download_test env url num_connections s =
             (if download_registered env num_connections = 0
              then Some (uv_run_nowait (nowait_events env)
                           ((emit (Ev_stderr (Msg_no_connections Download)) s1)
                              \<lparr>test_duration_timer := close_test_timer (test_duration_timer s1)\<rparr>))
              else (case uv_run_default (loop_events env)
                           (s1\<lparr>running_handles := int (download_registered env num_connections)\<rparr>) of
                      None \<Rightarrow> None
                    | Some s2 \<Rightarrow>
                        Some (download_finish env hs (int (download_registered env num_connections)) s2)))"
proof -
  let ?s0 = "s\<lparr>total_downloaded_bytes := 0, test_duration_timer := uv_timer_start uv_timer_init 10000 10000\<rparr>"
  have f: "handles_fresh ?s0" using assms(1) by (simp add: handles_fresh_def)
  obtain s1 hs k where r: "download_register env num_connections ?s0 = (s1, hs, k)"
    "k = int (length (filter (\<lambda>i. download_ok (conn env i)) [0..<nat num_connections]))"
    "milestones s1 = milestones ?s0"
    using download_register_count [OF f assms(2), of env] by blast
  have k: "k = int (download_registered env num_connections)"
    using r(2) by (simp add: download_registered_def)
  have m: "milestones s1 = milestones s" using r(3) by (simp add: milestones_def)
  show ?thesis
    using assms(2,3) r(1) k m
    by (intro exI [of _ s1] exI [of _ hs]) (simp add: perform_download_test_def Let_def)
qed

lemma upload_started:
  assumes "handles_fresh s" "num_connections \<le> 10" "timer_init_rc env = 0" "buffer_malloc_ok env"
  shows "\<exists>s1.
           upload_register env (generate_upload_data True (10 * 1024 * 1024)) num_connections
             (s\<lparr>test_duration_timer_upload := uv_timer_start uv_timer_init 1 0\<rparr>)
             = (s1, int (upload_registered env num_connections)) \<and>
           milestones s1 = milestones s \<and>
           perform_upload_test env url num_connections s =
             (if upload_registered env num_connections = 0
              then Some (uv_run_nowait (nowait_events env)
                           ((emit (Ev_stderr (Msg_no_connections Upload)) s1)
                              \<lparr>test_duration_timer_upload :=
                                 close_test_timer (test_duration_timer_upload s1)\<rparr>))
              else (case uv_run_default (loop_events env)
                           (s1\<lparr>running_handles := int (upload_registered env num_connections)\<rparr>) of
                      None \<Rightarrow> None
                    | Some s2 \<Rightarrow>
                        Some (upload_finish env num_connections
                                (int (upload_registered env num_connections)) s2)))"
proof -
  let ?sh = "generate_upload_data True (10 * 1024 * 1024)"
  let ?s0 = "s\<lparr>test_duration_timer_upload := uv_timer_start uv_timer_init 1 0\<rparr>"
  have g: "(buffer (generate_upload_data True 10485760) = None) = False"
    "(size_bytes (generate_upload_data True 10485760) = 0) = False"
    by (simp_all add: generate_upload_data_def)
  have f: "handles_fresh ?s0" using assms(1) by (simp add: handles_fresh_def)
  obtain s1 k where r: "upload_register env ?sh num_connections ?s0 = (s1, k)"
    "k = int (length (filter (\<lambda>i. upload_ok (conn env i)) [0..<nat num_connections]))"
    "milestones s1 = milestones ?s0"
    using upload_register_count [OF f, of env ?sh num_connections] by blast
  have k: "k = int (upload_registered env num_connections)"
    using r(2) by (simp add: upload_registered_def)
  have m: "milestones s1 = milestones s" using r(3) by (simp add: milestones_def)
  show ?thesis
    using assms(2,3,4) r(1) k m
    by (intro exI [of _ s1]) (simp add: perform_upload_test_def Let_def g)
qed

lemma perform_download_test_report:
  assumes "handles_fresh s" "num_connections \<le> 10" "timer_init_rc env = 0"
    and "0 < download_registered env num_connections"
    and "perform_download_test env url num_connections s = Some s'"
  shows "\<exists>b d v. milestones s' =
           milestones s @ [Ev_uv_run UV_RUN_DEFAULT, Ev_uv_run UV_RUN_NOWAIT,
                           Ev_results Download (int (download_registered env num_connections)) b d v]"
proof -
  let ?k = "int (download_registered env num_connections)"
  obtain s1 hs where r: "milestones s1 = milestones s"
    "perform_download_test env url num_connections s =
       (case uv_run_default (loop_events env) (s1\<lparr>running_handles := ?k\<rparr>) of
          None \<Rightarrow> None | Some s2 \<Rightarrow> Some (download_finish env hs ?k s2))"
    using download_started [OF assms(1-3), of url] assms(4) by auto
  obtain s2 where s2: "uv_run_default (loop_events env) (s1\<lparr>running_handles := ?k\<rparr>) = Some s2"
    "s' = download_finish env hs ?k s2"
    using r(2) assms(5) by (auto split: option.splits)
  have "milestones s2 = milestones s @ [Ev_uv_run UV_RUN_DEFAULT]"
    using uv_run_default_milestones [OF s2(1)] r(1) by (simp add: milestones_def)
  moreover obtain b d v where
    "milestones (download_finish env hs ?k s2) = milestones s2 @ [Ev_uv_run UV_RUN_NOWAIT, Ev_results Download ?k b d v]"
    unfolding download_finish_milestones by blast
  ultimately have "milestones s' =
      milestones s @ [Ev_uv_run UV_RUN_DEFAULT, Ev_uv_run UV_RUN_NOWAIT, Ev_results Download ?k b d v]"
    using s2(2) by simp
  then show ?thesis by blast
qed

lemma perform_upload_test_report:
  assumes "handles_fresh s" "num_connections \<le> 10" "timer_init_rc env = 0" "buffer_malloc_ok env"
    and "0 < upload_registered env num_connections"
    and "perform_upload_test env url num_connections s = Some s'"
  shows "\<exists>b d v. milestones s' =
           milestones s @ [Ev_uv_run UV_RUN_DEFAULT, Ev_uv_run UV_RUN_NOWAIT,
                           Ev_results Upload (int (upload_registered env num_connections)) b d v]"
proof -
  let ?k = "int (upload_registered env num_connections)"
  obtain s1 where r: "milestones s1 = milestones s"
    "perform_upload_test env url num_connections s =
       (case uv_run_default (loop_events env) (s1\<lparr>running_handles := ?k\<rparr>) of
          None \<Rightarrow> None | Some s2 \<Rightarrow> Some (upload_finish env num_connections ?k s2))"
    using upload_started [OF assms(1-4), of url] assms(5) by auto
  obtain s2 where s2: "uv_run_default (loop_events env) (s1\<lparr>running_handles := ?k\<rparr>) = Some s2"
    "s' = upload_finish env num_connections ?k s2"
    using r(2) assms(6) by (auto split: option.splits)
  have "milestones s2 = milestones s @ [Ev_uv_run UV_RUN_DEFAULT]"
    using uv_run_default_milestones [OF s2(1)] r(1) by (simp add: milestones_def)
  moreover obtain b d v where
    "milestones (upload_finish env num_connections ?k s2) = milestones s2 @ [Ev_uv_run UV_RUN_NOWAIT, Ev_results Upload ?k b d v]"
    unfolding upload_finish_milestones by blast
  ultimately have "milestones s' =
      milestones s @ [Ev_uv_run UV_RUN_DEFAULT, Ev_uv_run UV_RUN_NOWAIT, Ev_results Upload ?k b d v]"
    using s2(2) by simp
  then show ?thesis by blast
qed

lemma perform_download_test_abort:
  assumes "handles_fresh s" "num_connections \<le> 10" "timer_init_rc env = 0"
    and "download_registered env num_connections = 0"
  shows "\<exists>s'. perform_download_test env url num_connections s = Some s' \<and>
           milestones s' = milestones s @ [Ev_stderr (Msg_no_connections Download), Ev_uv_run UV_RUN_NOWAIT]"
proof -
  obtain s1 where r: "milestones s1 = milestones s"
    "perform_download_test env url num_connections s =
       Some (uv_run_nowait (nowait_events env)
               ((emit (Ev_stderr (Msg_no_connections Download)) s1)
                  \<lparr>test_duration_timer := close_test_timer (test_duration_timer s1)\<rparr>))"
    using download_started [OF assms(1-3), of url] assms(4) by auto
  have "milestones ((emit (Ev_stderr (Msg_no_connections Download)) s1)
                  \<lparr>test_duration_timer := close_test_timer (test_duration_timer s1)\<rparr>)
        = milestones s @ [Ev_stderr (Msg_no_connections Download)]"
    using r(1) by (simp add: milestones_def emit_def)
  then show ?thesis using r(2) by simp
qed

lemma perform_upload_test_abort:
  assumes "handles_fresh s" "num_connections \<le> 10" "timer_init_rc env = 0" "buffer_malloc_ok env"
    and "upload_registered env num_connections = 0"
  shows "\<exists>s'. perform_upload_test env url num_connections s = Some s' \<and>
           milestones s' = milestones s @ [Ev_stderr (Msg_no_connections Upload), Ev_uv_run UV_RUN_NOWAIT]"
proof -
  obtain s1 where r: "milestones s1 = milestones s"
    "perform_upload_test env url num_connections s =
       Some (uv_run_nowait (nowait_events env)
               ((emit (Ev_stderr (Msg_no_connections Upload)) s1)
                  \<lparr>test_duration_timer_upload := close_test_timer (test_duration_timer_upload s1)\<rparr>))"
    using upload_started [OF assms(1-4), of url] assms(5) by auto
  have "milestones ((emit (Ev_stderr (Msg_no_connections Upload)) s1)
                  \<lparr>test_duration_timer_upload := close_test_timer (test_duration_timer_upload s1)\<rparr>)
        = milestones s @ [Ev_stderr (Msg_no_connections Upload)]"
    using r(1) by (simp add: milestones_def emit_def)
  then show ?thesis using r(2) by simp
qed

lemmas eval_run =
  perform_upload_test_def upload_register_def upload_connection_def upload_finish_def
  upload_skip_def set_easy_handle_def upload_cleanup_def sum_bytes_sent_def
  perform_download_test_def download_register_def download_connection_def download_finish_def
  curl_multi_add_handle_def curl_easy_init_def uv_run_default_def
  on_uv_curl_timeout_def on_uv_socket_event_def uv_fileno_def
  call_read_function_def call_socket_function_def curl_write_callback_def
  generate_upload_data_def fresh_stream_def read_once_def curl_read_callback_def memcpy_def
  Let_def

lemma handles_fresh_initial: "handles_fresh initial_engine"
  by (simp add: handles_fresh_def initial_engine_def)

lemma scenario_b_registered:
  "upload_registered scenario_b_env 3 = 2" "download_registered scenario_b_env 3 = 2"
  by (simp_all add: upload_registered_def download_registered_def scenario_b_env_def
        upload_ok_def download_ok_def upt_rec)

lemma scenario_b_run:
  "map_option trace (perform_upload_test scenario_b_env ''http://host/upload'' 3 initial_engine) =
     Some [Ev_stderr (Msg_setopt_failed 2 3), Ev_easy_cleanup 1 False, Ev_uv_run UV_RUN_DEFAULT,
        Ev_socket_action CURL_SOCKET_TIMEOUT 0, Ev_multi_remove 0, Ev_multi_remove 2,
        Ev_uv_run UV_RUN_NOWAIT, Ev_results Upload 2 32768 1 0.262144,
        Ev_easy_cleanup 0 False, Ev_easy_cleanup 2 False]"
  by (simp add: scenario_b_env_def eval_run eval_loop eval_engine upt_rec)

text \<open>
  Claim C6 as stated fails. A download run whose only connection gets no easy handle
  registers nothing, reports that no connection was initiated, and then calls
  \<^verbatim>\<open>uv_run\<close>: the reactor loop is entered, for one non-blocking iteration. An upload run
  whose payload cannot be allocated registers nothing either and reports the allocation
  failure, not that no connection was initiated.
\<close>

theorem zero_registered_counterexample:
  "download_registered no_connection_env 1 = 0 \<and>
   map_option trace (perform_download_test no_connection_env ''http://host/file'' 1 initial_engine) =
     Some [Ev_stderr (Msg_easy_init_failed 1), Ev_stderr (Msg_no_connections Download),
           Ev_uv_run UV_RUN_NOWAIT] \<and>
   map_option trace
     (perform_upload_test (no_connection_env\<lparr>buffer_malloc_ok := False\<rparr>) ''http://host/file'' 1
        initial_engine) =
     Some [Ev_stderr Msg_upload_data_failed]"
  by (simp add: no_connection_env_def download_registered_def download_ok_def
        eval_run eval_loop eval_engine upt_rec)

text \<open>
  Claim C6, as amended. A run in which no transfer registers returns without a call of
  \<^verbatim>\<open>uv_run\<close> in \<^verbatim>\<open>UV_RUN_DEFAULT\<close> mode. When the run has reached the registration
  loop (at most 10 connections, duration timer initialised and, for an upload, payload
  allocated) and no connection registers, it reports that no connection was initiated and
  then calls \<^verbatim>\<open>uv_run\<close> once in \<^verbatim>\<open>UV_RUN_NOWAIT\<close> mode, which lets the close callback
  of the duration timer run. When the run stops before the registration loop, it reports
  that set-up failure instead and does not call \<^verbatim>\<open>uv_run\<close> at all.
\<close>

theorem zero_registered_never_blocks:
  assumes "handles_fresh s"
  shows
   "(num_connections \<le> 10 \<and> timer_init_rc env = 0 \<and>
     download_registered env num_connections = 0 \<longrightarrow>
       (\<exists>s'. perform_download_test env url num_connections s = Some s' \<and>
             milestones s' =
               milestones s @ [Ev_stderr (Msg_no_connections Download), Ev_uv_run UV_RUN_NOWAIT])) \<and>
    (num_connections \<le> 10 \<and> timer_init_rc env = 0 \<and> buffer_malloc_ok env \<and>
     upload_registered env num_connections = 0 \<longrightarrow>
       (\<exists>s'. perform_upload_test env url num_connections s = Some s' \<and>
             milestones s' =
               milestones s @ [Ev_stderr (Msg_no_connections Upload), Ev_uv_run UV_RUN_NOWAIT])) \<and>
    (10 < num_connections \<or> timer_init_rc env \<noteq> 0 \<longrightarrow>
       (\<exists>s'. perform_download_test env url num_connections s = Some s' \<and>
             milestones s' =
               milestones s @ [Ev_stderr (if 10 < num_connections then Msg_exceeded_max
                                          else Msg_timer_init_failed (timer_init_rc env))])) \<and>
    (\<not> buffer_malloc_ok env \<or> 10 < num_connections \<or> timer_init_rc env \<noteq> 0 \<longrightarrow>
       (\<exists>s'. perform_upload_test env url num_connections s = Some s' \<and>
             milestones s' =
               milestones s @ [Ev_stderr (if \<not> buffer_malloc_ok env then Msg_upload_data_failed
                                          else if 10 < num_connections then Msg_exceeded_max
                                          else Msg_timer_init_failed (timer_init_rc env))]))"
proof (intro conjI impI)
  assume "num_connections \<le> 10 \<and> timer_init_rc env = 0 \<and> download_registered env num_connections = 0"
  then show "\<exists>s'. perform_download_test env url num_connections s = Some s' \<and>
             milestones s' =
               milestones s @ [Ev_stderr (Msg_no_connections Download), Ev_uv_run UV_RUN_NOWAIT]"
    using perform_download_test_abort [OF assms, of num_connections env url] by blast
next
  assume "num_connections \<le> 10 \<and> timer_init_rc env = 0 \<and> buffer_malloc_ok env \<and>
     upload_registered env num_connections = 0"
  then show "\<exists>s'. perform_upload_test env url num_connections s = Some s' \<and>
             milestones s' =
               milestones s @ [Ev_stderr (Msg_no_connections Upload), Ev_uv_run UV_RUN_NOWAIT]"
    using perform_upload_test_abort [OF assms, of num_connections env url] by blast
next
  assume "10 < num_connections \<or> timer_init_rc env \<noteq> 0"
  then show "\<exists>s'. perform_download_test env url num_connections s = Some s' \<and>
             milestones s' =
               milestones s @ [Ev_stderr (if 10 < num_connections then Msg_exceeded_max
                                          else Msg_timer_init_failed (timer_init_rc env))]"
    by (auto simp: perform_download_test_def Let_def milestones_def emit_def)
next
  assume "\<not> buffer_malloc_ok env \<or> 10 < num_connections \<or> timer_init_rc env \<noteq> 0"
  then show "\<exists>s'. perform_upload_test env url num_connections s = Some s' \<and>
             milestones s' =
               milestones s @ [Ev_stderr (if \<not> buffer_malloc_ok env then Msg_upload_data_failed
                                          else if 10 < num_connections then Msg_exceeded_max
                                          else Msg_timer_init_failed (timer_init_rc env))]"
    by (auto simp: perform_upload_test_def Let_def milestones_def emit_def generate_upload_data_def)
qed

theorem zero_registered_never_blocks_witness:
  "map_option milestones
     (perform_download_test no_connection_env ''http://host/file'' 1 initial_engine) =
     Some [Ev_stderr (Msg_no_connections Download), Ev_uv_run UV_RUN_NOWAIT] \<and>
   map_option milestones
     (perform_upload_test no_connection_env ''http://host/file'' 1 initial_engine) =
     Some [Ev_stderr (Msg_no_connections Upload), Ev_uv_run UV_RUN_NOWAIT] \<and>
   map_option milestones
     (perform_download_test no_connection_env ''http://host/file'' 11 initial_engine) =
     Some [Ev_stderr Msg_exceeded_max] \<and>
   map_option milestones
     (perform_upload_test (no_connection_env\<lparr>buffer_malloc_ok := False\<rparr>) ''http://host/file'' 1
        initial_engine) =
     Some [Ev_stderr Msg_upload_data_failed]"
proof -
  have z: "download_registered no_connection_env 1 = 0" "upload_registered no_connection_env 1 = 0"
    by (simp_all add: download_registered_def upload_registered_def no_connection_env_def
          download_ok_def upload_ok_def)
  have e: "timer_init_rc no_connection_env = 0" "buffer_malloc_ok no_connection_env"
    "\<not> buffer_malloc_ok (no_connection_env\<lparr>buffer_malloc_ok := False\<rparr>)"
    by (simp_all add: no_connection_env_def)
  have m: "milestones initial_engine = []" by (simp add: milestones_def initial_engine_def)
  note t1 = zero_registered_never_blocks [OF handles_fresh_initial,
      where env = no_connection_env and num_connections = 1 and url = "''http://host/file''"]
  note t2 = zero_registered_never_blocks [OF handles_fresh_initial,
      where env = no_connection_env and num_connections = 11 and url = "''http://host/file''"]
  note t3 = zero_registered_never_blocks [OF handles_fresh_initial,
      where env = "no_connection_env\<lparr>buffer_malloc_ok := False\<rparr>" and num_connections = 1
        and url = "''http://host/file''"]
  have a: "map_option milestones
     (perform_download_test no_connection_env ''http://host/file'' 1 initial_engine) =
     Some [Ev_stderr (Msg_no_connections Download), Ev_uv_run UV_RUN_NOWAIT]"
    using t1 [THEN conjunct1] z e m by auto
  have b: "map_option milestones
     (perform_upload_test no_connection_env ''http://host/file'' 1 initial_engine) =
     Some [Ev_stderr (Msg_no_connections Upload), Ev_uv_run UV_RUN_NOWAIT]"
    using t1 [THEN conjunct2, THEN conjunct1] z e m by auto
  have c: "map_option milestones
     (perform_download_test no_connection_env ''http://host/file'' 11 initial_engine) =
     Some [Ev_stderr Msg_exceeded_max]"
    using t2 [THEN conjunct2, THEN conjunct2, THEN conjunct1] m by auto
  have d: "map_option milestones
     (perform_upload_test (no_connection_env\<lparr>buffer_malloc_ok := False\<rparr>) ''http://host/file'' 1
        initial_engine) =
     Some [Ev_stderr Msg_upload_data_failed]"
    using t3 [THEN conjunct2, THEN conjunct2, THEN conjunct2] e m by auto
  show ?thesis using a b c d by (intro conjI)
qed

section \<open>Release of a handle that is still registered\<close>

text \<open>
  Claim C3 at two runs in which the blocking loop returns while a transfer is still
  registered. In the first, of two uploads the first fails at once and the library asks
  for a timer for the second, which has no socket yet: the library reports one running
  transfer, \<^verbatim>\<open>check_multi_info\<close> subtracts the completed one from that count, finds 0 and
  stops the timer the library has just asked for; the duration timer has expired, the
  loop has nothing left and returns, with the count at 0 and the second handle still held
  by the multi handle, and the run calls \<^verbatim>\<open>curl_easy_cleanup\<close> on that handle. In the
  second, the library calls the timer callback with timeout 0 while it adds the handle
  and refuses the re-entrant call that the callback makes; no timer is started, the loop
  returns when the duration timer has expired, and the only handle is released while
  registered.
\<close>

theorem handle_released_while_registered:
  "map_option trace (perform_upload_test early_exit_env ''http://host/upload'' 2 initial_engine) =
     Some [Ev_uv_run UV_RUN_DEFAULT, Ev_socket_action CURL_SOCKET_TIMEOUT 0,
           Ev_stderr (Msg_transfer_failed 0 6), Ev_multi_remove 0,
           Ev_uv_run UV_RUN_NOWAIT, Ev_results Upload 2 0 0.002 0,
           Ev_easy_cleanup 0 False, Ev_easy_cleanup 1 True] \<and>
   map_option running_handles
     (uv_run_default (loop_events early_exit_env)
        ((fst (upload_register early_exit_env (generate_upload_data True (10 * 1024 * 1024)) 2
                 (initial_engine\<lparr>test_duration_timer_upload := uv_timer_start uv_timer_init 1 0\<rparr>)))
           \<lparr>running_handles := 2\<rparr>)) = Some 0 \<and>
   map_option multi_handles
     (uv_run_default (loop_events early_exit_env)
        ((fst (upload_register early_exit_env (generate_upload_data True (10 * 1024 * 1024)) 2
                 (initial_engine\<lparr>test_duration_timer_upload := uv_timer_start uv_timer_init 1 0\<rparr>)))
           \<lparr>running_handles := 2\<rparr>)) = Some [1] \<and>
   map_option trace (perform_upload_test refused_env ''http://host/upload'' 1 initial_engine) =
     Some [Ev_socket_action CURL_SOCKET_TIMEOUT 0, Ev_stderr (Msg_socket_action_failed 8),
           Ev_uv_run UV_RUN_DEFAULT, Ev_uv_run UV_RUN_NOWAIT, Ev_results Upload 1 0 0.002 0,
           Ev_easy_cleanup 0 True]"
  by (simp add: early_exit_env_def refused_env_def eval_run eval_loop eval_engine upt_rec)

section \<open>The keep-alive timer of the download run\<close>

lemma on_uv_curl_timeout_frame: "callback_frame s (on_uv_curl_timeout p s)"
proof -
  obtain s1 n mc where p: "curl_multi_socket_action p CURL_SOCKET_TIMEOUT 0 s = (s1, n, mc)"
    by (cases "curl_multi_socket_action p CURL_SOCKET_TIMEOUT 0 s")
  let ?s2 = "(if mc \<noteq> CURLM_OK then emit (Ev_stderr (Msg_socket_action_failed mc)) s1 else s1)\<lparr>running_handles := n\<rparr>"
  have "callback_frame s s1" using pump_frame(1) [of s p CURL_SOCKET_TIMEOUT 0] p by simp
  moreover have "callback_frame s1 ?s2" by (simp add: callback_frame_def emit_def)
  moreover have "callback_frame ?s2 (check_multi_info ?s2)" by (rule check_multi_info_frame)
  ultimately have "callback_frame s (check_multi_info ?s2)" by (blast intro: callback_frame_trans)
  then show ?thesis using p by (simp add: on_uv_curl_timeout_def)
qed

lemma on_uv_socket_event_frame: "callback_frame s (on_uv_socket_event p h st ev s)"
proof -
  define s0 where "s0 = (if st < 0 then emit (Ev_stderr (Msg_socket_event_error st)) s else s)"
  have a: "callback_frame s s0" by (simp add: s0_def callback_frame_def emit_def)
  show ?thesis
  proof (cases "uv_fileno s0 h")
    case None
    have "callback_frame s (emit (Ev_stderr Msg_fileno_failed) s0)"
      using a by (simp add: callback_frame_def emit_def)
    then show ?thesis using None by (simp add: on_uv_socket_event_def Let_def s0_def [symmetric])
  next
    case (Some fd)
    define flags where "flags = (if ev AND UV_READABLE \<noteq> 0 then CURL_CSELECT_IN else 0)
                  OR (if ev AND UV_WRITABLE \<noteq> 0 then CURL_CSELECT_OUT else 0)"
    obtain s1 n mc where p: "curl_multi_socket_action p fd flags s0 = (s1, n, mc)"
      by (cases "curl_multi_socket_action p fd flags s0")
    let ?s2 = "(if mc \<noteq> CURLM_OK then emit (Ev_stderr (Msg_socket_action_failed mc)) s1 else s1)\<lparr>running_handles := n\<rparr>"
    have "callback_frame s0 s1" using pump_frame(1) [of s0 p fd flags] p by simp
    moreover have "callback_frame s1 ?s2" by (simp add: callback_frame_def emit_def)
    moreover have "callback_frame ?s2 (check_multi_info ?s2)" by (rule check_multi_info_frame)
    ultimately have "callback_frame s (check_multi_info ?s2)" using a by (blast intro: callback_frame_trans)
    moreover have "on_uv_socket_event p h st ev s = check_multi_info ?s2"
      unfolding on_uv_socket_event_def Let_def s0_def [symmetric] flags_def [symmetric]
      using Some p by simp
    ultimately show ?thesis by simp
  qed
qed

lemma uv_dispatch_repeating:
  assumes "repeating (test_duration_timer s)"
  shows "repeating (test_duration_timer (uv_dispatch e s))"
proof (cases e)
  case (Timeout_timer_due p)
  let ?s = "s\<lparr>timeout_timer := timer_expire (timeout_timer s)\<rparr>"
  have "test_duration_timer (on_uv_curl_timeout p ?s) = test_duration_timer ?s"
    using on_uv_curl_timeout_frame [of ?s p] by (simp add: callback_frame_def)
  then show ?thesis using assms Timeout_timer_due by (simp add: uv_dispatch_def)
next
  case Test_timer_due
  then show ?thesis using assms
    by (simp add: uv_dispatch_def on_test_timeout_dummy_def timer_expire_def repeating_def)
next
  case Test_timer_upload_due
  then show ?thesis using assms by (simp add: uv_dispatch_def on_test_timeout_dummy_def)
next
  case (Poll_ready h st ev p)
  have "test_duration_timer (on_uv_socket_event p h st ev s) = test_duration_timer s"
    using on_uv_socket_event_frame [of s p h st ev] by (simp add: callback_frame_def)
  then show ?thesis using assms Poll_ready by (simp add: uv_dispatch_def split: option.splits)
qed

lemma uv_run_default_loop_blocks:
  "repeating (test_duration_timer s) \<Longrightarrow> uv_run_default_loop evs s = None"
proof (induction evs arbitrary: s)
  case Nil
  then show ?case by (simp add: uv_loop_alive_def timer_alive_def repeating_def)
next
  case (Cons e evs)
  have a: "uv_loop_alive s" using Cons.prems by (simp add: uv_loop_alive_def timer_alive_def repeating_def)
  have "repeating (test_duration_timer (uv_run_closing (uv_dispatch e s)))"
    using uv_dispatch_repeating [OF Cons.prems, of e] by (simp add: uv_run_closing_def repeating_def)
  from Cons.IH [OF this] a show ?case by simp
qed

lemma curl_easy_cleanup_timer:
  "test_duration_timer (curl_easy_cleanup d h s) = test_duration_timer s"
proof -
  have "test_duration_timer (run_lib_steps d t) = test_duration_timer t" for t
    using pump_frame(2) [of t d] by (simp add: callback_frame_def)
  then show ?thesis by (simp add: curl_easy_cleanup_def Let_def emit_def)
qed

lemma download_connection_timer:
  "test_duration_timer (fst (download_connection env i (s, hs, k))) = test_duration_timer s"
proof -
  have "test_duration_timer (fst (curl_multi_add_handle c h t)) = test_duration_timer t" for c h t
    using pump_frame(2) [of "t\<lparr>multi_handles := multi_handles t @ [h]\<rparr>" "add_steps c"]
    by (simp add: curl_multi_add_handle_def callback_frame_def)
  from this [of "conn env i" "next_easy s"
                "s\<lparr>easy_live := easy_live s @ [next_easy s], next_easy := Suc (next_easy s)\<rparr>"]
  show ?thesis
    by (auto simp: download_connection_def Let_def curl_easy_init_def curl_easy_cleanup_timer emit_def
          split: prod.splits)
qed

lemma download_fold_timer:
  "test_duration_timer (fst (fold (download_connection env) js (s, hs, k))) = test_duration_timer s"
proof (induction js arbitrary: s hs k)
  case Nil
  show ?case by simp
next
  case (Cons j js)
  obtain s1 hs1 k1 where c: "download_connection env j (s, hs, k) = (s1, hs1, k1)"
    by (cases "download_connection env j (s, hs, k)")
  then have "test_duration_timer s1 = test_duration_timer s"
    using download_connection_timer [of env j s hs k] by simp
  then show ?case using Cons [of s1 hs1 k1] c by simp
qed

lemma perform_download_test_never_returns:
  assumes "handles_fresh s" "num_connections \<le> 10" "timer_init_rc env = 0"
    and "0 < download_registered env num_connections"
  shows "perform_download_test env url num_connections s = None"
proof -
  let ?k = "int (download_registered env num_connections)"
  let ?s0 = "s\<lparr>total_downloaded_bytes := 0,
                 test_duration_timer := uv_timer_start uv_timer_init 10000 10000\<rparr>"
  obtain s1 hs where r: "download_register env num_connections ?s0 = (s1, hs, ?k)"
    "perform_download_test env url num_connections s =
       (case uv_run_default (loop_events env) (s1\<lparr>running_handles := ?k\<rparr>) of
          None \<Rightarrow> None | Some s2 \<Rightarrow> Some (download_finish env hs ?k s2))"
    using download_started [OF assms(1-3), of url] assms(4) by auto
  have "test_duration_timer s1 = uv_timer_start uv_timer_init 10000 10000"
    using download_fold_timer [of env "[0..<nat num_connections]" ?s0 "replicate 10 0" 0] r(1)
    by (simp add: download_register_def)
  then have "repeating (test_duration_timer (emit (Ev_uv_run UV_RUN_DEFAULT) (s1\<lparr>running_handles := ?k\<rparr>)))"
    by (simp add: repeating_def emit_def uv_timer_start_def uv_timer_init_def)
  then have "uv_run_default (loop_events env) (s1\<lparr>running_handles := ?k\<rparr>) = None"
    unfolding uv_run_default_def by (rule uv_run_default_loop_blocks)
  then show ?thesis using r(2) by simp
qed

text \<open>
  Claim C7 at a download run of Scenario B: three connections are requested and
  \<^verbatim>\<open>curl_easy_setopt\<close> rejects the URL of the second. The registration loop reports the
  failure, releases the handle of that connection and goes on: two connections register
  (handles 0 and 2), and 2 is the count the run proceeds with. The run then calls
  \<^verbatim>\<open>uv_run\<close> in \<^verbatim>\<open>UV_RUN_DEFAULT\<close> mode and never returns from it, whatever the reactor
  delivers: the duration timer was started with a repeat interval and is stopped only by
  the code that follows the call. The result block, which would show 2 connections, is
  never written. The upload run of the same scenario returns and reports 2 connections.
\<close>

theorem download_run_never_reports:
  "snd (snd (download_register scenario_b_env 3
               (initial_engine\<lparr>total_downloaded_bytes := 0,
                  test_duration_timer := uv_timer_start uv_timer_init 10000 10000\<rparr>))) = 2 \<and>
   trace (fst (download_register scenario_b_env 3
                 (initial_engine\<lparr>total_downloaded_bytes := 0,
                    test_duration_timer := uv_timer_start uv_timer_init 10000 10000\<rparr>)))
     = [Ev_stderr (Msg_setopt_failed 2 3), Ev_easy_cleanup 1 False] \<and>
   multi_handles (fst (download_register scenario_b_env 3
                         (initial_engine\<lparr>total_downloaded_bytes := 0,
                            test_duration_timer := uv_timer_start uv_timer_init 10000 10000\<rparr>)))
     = [0, 2] \<and>
   easy_live (fst (download_register scenario_b_env 3
                     (initial_engine\<lparr>total_downloaded_bytes := 0,
                        test_duration_timer := uv_timer_start uv_timer_init 10000 10000\<rparr>)))
     = [0, 2] \<and>
   perform_download_test (scenario_b_env\<lparr>loop_events := evs\<rparr>) ''http://host/file'' 3 initial_engine
     = None \<and>
   map_option milestones (perform_upload_test scenario_b_env ''http://host/upload'' 3 initial_engine)
     = Some [Ev_uv_run UV_RUN_DEFAULT, Ev_uv_run UV_RUN_NOWAIT, Ev_results Upload 2 32768 1 0.262144]"
proof -
  let ?s0 = "initial_engine\<lparr>total_downloaded_bytes := 0,
                test_duration_timer := uv_timer_start uv_timer_init 10000 10000\<rparr>"
  have r: "download_register scenario_b_env 3 ?s0 =
      (fst (download_register scenario_b_env 3 ?s0), fst (snd (download_register scenario_b_env 3 ?s0)), 2)"
    by (simp add: scenario_b_env_def eval_run eval_loop eval_engine upt_rec)
  have k: "snd (snd (download_register scenario_b_env 3 ?s0)) = 2"
    by (subst r) simp
  have t: "trace (fst (download_register scenario_b_env 3 ?s0))
      = [Ev_stderr (Msg_setopt_failed 2 3), Ev_easy_cleanup 1 False]"
    by (simp add: scenario_b_env_def eval_run eval_loop eval_engine upt_rec)
  have m: "multi_handles (fst (download_register scenario_b_env 3 ?s0)) = [0, 2]"
    by (simp add: scenario_b_env_def eval_run eval_loop eval_engine upt_rec)
  have l: "easy_live (fst (download_register scenario_b_env 3 ?s0)) = [0, 2]"
    by (simp add: scenario_b_env_def eval_run eval_loop eval_engine upt_rec)
  have d: "0 < download_registered (scenario_b_env\<lparr>loop_events := evs\<rparr>) 3"
    by (simp add: download_registered_def scenario_b_env_def download_ok_def upt_rec)
  have i: "timer_init_rc (scenario_b_env\<lparr>loop_events := evs\<rparr>) = 0"
    by (simp add: scenario_b_env_def)
  have n: "perform_download_test (scenario_b_env\<lparr>loop_events := evs\<rparr>) ''http://host/file'' 3
      initial_engine = None"
    by (rule perform_download_test_never_returns [OF handles_fresh_initial _ i d]) simp
  have u: "map_option milestones
      (perform_upload_test scenario_b_env ''http://host/upload'' 3 initial_engine)
     = Some [Ev_uv_run UV_RUN_DEFAULT, Ev_uv_run UV_RUN_NOWAIT, Ev_results Upload 2 32768 1 0.262144]"
    using scenario_b_run
    by (cases "perform_upload_test scenario_b_env ''http://host/upload'' 3 initial_engine")
       (simp_all add: milestones_def)
  show ?thesis using k t m l n u by (intro conjI)
qed

section \<open>The send cursors during an upload run\<close>

lemma cursors_advance_refl [simp]: "cursors_advance s s"
  by (simp add: cursors_advance_def list_all2_same)


lemma cursor_step_refl [simp]: "cursor_step s s"
  by (simp add: cursor_step_def)














lemma cursor_within_easy_handle [simp]:
  "cursor_within (ctx\<lparr>easy_handle := h\<rparr>) = cursor_within ctx"
  by (simp add: cursor_within_def split: option.splits)


lemma within_trace_only [simp]: "cursors_within (emit e s) = cursors_within s"
  by (simp add: cursors_within_def emit_def)














section \<open>A deadline left pending after the last transfer\<close>





end
